theory Spec2Isabelle
  imports Main "HOL-Library.Sublist"
begin

section \<open>Python values, types and errors\<close>

text \<open>
  The argument validators of \<^verbatim>\<open>nlp_architect/utils/io.py\<close> are dynamically typed: a rule
  carries any value, and the checks raise. The values modelled are \<^verbatim>\<open>None\<close>, \<^verbatim>\<open>bool\<close>,
  \<^verbatim>\<open>int\<close> (unbounded), \<^verbatim>\<open>str\<close>, \<^verbatim>\<open>list\<close> and \<^verbatim>\<open>tuple\<close>. A string is a list of
  characters with code points below 256, and its length is the number of its characters.
  Floating-point values are left out.
\<close>

datatype pyval =
    VNone
  | VBool bool
  | VInt int
  | VStr string
  | VList "pyval list"
  | VTuple "pyval list"

datatype pytype = TObject | TNoneType | TBool | TInt | TStr | TList | TTuple

text \<open>Exceptions are values; the constructors carry the message of the exception.\<close>

datatype error =
    TypeError string
  | ValueError string
  | AssertionError

fun type_of :: "pyval \<Rightarrow> pytype" where
  "type_of VNone = TNoneType"
| "type_of (VBool _) = TBool"
| "type_of (VInt _) = TInt"
| "type_of (VStr _) = TStr"
| "type_of (VList _) = TList"
| "type_of (VTuple _) = TTuple"

text \<open>\<^verbatim>\<open>t.__name__\<close>\<close>

fun type_name :: "pytype \<Rightarrow> string" where
  "type_name TObject = ''object''"
| "type_name TNoneType = ''NoneType''"
| "type_name TBool = ''bool''"
| "type_name TInt = ''int''"
| "type_name TStr = ''str''"
| "type_name TList = ''list''"
| "type_name TTuple = ''tuple''"

text \<open>
  \<^verbatim>\<open>issubclass\<close>: every class derives from \<^verbatim>\<open>object\<close>, and \<^verbatim>\<open>bool\<close> derives from
  \<^verbatim>\<open>int\<close>.
\<close>

definition issubclass :: "pytype \<Rightarrow> pytype \<Rightarrow> bool" where
  "issubclass t u \<longleftrightarrow> u = TObject \<or> t = u \<or> (t = TBool \<and> u = TInt)"

text \<open>\<^verbatim>\<open>isinstance(v, ts)\<close> for a tuple \<^verbatim>\<open>ts\<close> of types.\<close>

definition isinstance :: "pyval \<Rightarrow> pytype list \<Rightarrow> bool" where
  "isinstance v ts = list_ex (issubclass (type_of v)) ts"

text \<open>\<^verbatim>\<open>hasattr(v, '__len__')\<close> and \<^verbatim>\<open>len(v)\<close>.\<close>

fun has_len :: "pyval \<Rightarrow> bool" where
  "has_len (VStr _) = True"
| "has_len (VList _) = True"
| "has_len (VTuple _) = True"
| "has_len _ = False"

fun py_len :: "pyval \<Rightarrow> nat" where
  "py_len (VStr s) = length s"
| "py_len (VList xs) = length xs"
| "py_len (VTuple xs) = length xs"
| "py_len _ = 0"

text \<open>The numeric value of an \<^verbatim>\<open>int\<close> or a \<^verbatim>\<open>bool\<close> (\<^verbatim>\<open>True == 1\<close>).\<close>

fun int_value :: "pyval \<Rightarrow> int option" where
  "int_value (VInt i) = Some i"
| "int_value (VBool b) = Some (if b then 1 else 0)"
| "int_value _ = None"

text \<open>
  \<^verbatim>\<open>a < b\<close> and \<^verbatim>\<open>a >= b\<close> as \<^verbatim>\<open>validate\<close> evaluates them: the left operand is a length
  or a value without \<^verbatim>\<open>__len__\<close> other than \<^verbatim>\<open>None\<close>, that is an \<^verbatim>\<open>int\<close> or a
  \<^verbatim>\<open>bool\<close>. Python 3 orders two numbers and raises \<^verbatim>\<open>TypeError\<close> for a number against
  anything else.
\<close>

definition not_supported :: "string \<Rightarrow> pyval \<Rightarrow> pyval \<Rightarrow> error" where
  "not_supported opr a b =
     TypeError ([CHR 0x27] @ opr @ [CHR 0x27] @ '' not supported between instances of ''
       @ [CHR 0x27] @ type_name (type_of a) @ [CHR 0x27] @ '' and ''
       @ [CHR 0x27] @ type_name (type_of b) @ [CHR 0x27])"

definition py_lt :: "pyval \<Rightarrow> pyval \<Rightarrow> error + bool" where
  "py_lt a b =
     (case (int_value a, int_value b) of
        (Some x, Some y) \<Rightarrow> Inr (x < y)
      | _ \<Rightarrow> Inl (not_supported ''<'' a b))"

definition py_ge :: "pyval \<Rightarrow> pyval \<Rightarrow> error + bool" where
  "py_ge a b =
     (case (int_value a, int_value b) of
        (Some x, Some y) \<Rightarrow> Inr (x \<ge> y)
      | _ \<Rightarrow> Inl (not_supported ''>='' a b))"

subsection \<open>Strings\<close>

text \<open>\<^verbatim>\<open>sep.join(xs)\<close>\<close>

fun join :: "string \<Rightarrow> string list \<Rightarrow> string" where
  "join sep [] = []"
| "join sep [x] = x"
| "join sep (x # y # ys) = x @ sep @ join sep (y # ys)"

text \<open>\<^verbatim>\<open>str(n)\<close> for an integer, in decimal.\<close>

fun digits :: "nat \<Rightarrow> string" where
  "digits n = (if n < 10 then [''0123456789'' ! n]
               else digits (n div 10) @ [''0123456789'' ! (n mod 10)])"

declare digits.simps [simp del]

definition str_int :: "int \<Rightarrow> string" where
  "str_int i = (if i < 0 then CHR ''-'' # digits (nat (- i)) else digits (nat i))"

text \<open>\<^verbatim>\<open>'{}'.format(v)\<close> for the values \<^verbatim>\<open>validate\<close> formats: a bound that is a number.\<close>

fun str_num :: "pyval \<Rightarrow> string" where
  "str_num (VInt i) = str_int i"
| "str_num (VBool b) = (if b then ''True'' else ''False'')"
| "str_num _ = []"

section \<open>validate\<close>

text \<open>
  A rule is the tuple \<^verbatim>\<open>(arg, class, ...)\<close>: the value, the accepted class or tuple of
  classes, and the remaining elements of the tuple (none, or \<^verbatim>\<open>min_val, max_val\<close>, or
  \<^verbatim>\<open>min_val, max_val, name\<close>, or more), so that \<^verbatim>\<open>len(arg)\<close> is two more than the length of
  the remainder.
\<close>

datatype typespec = OneType pytype | TypeTuple "pytype list"

datatype rule = Rule pyval typespec "pyval list"

text \<open>\<^verbatim>\<open>arg_type = (arg[1],) if isinstance(arg[1], type) else arg[1]\<close>\<close>

fun accepted_types :: "typespec \<Rightarrow> pytype list" where
  "accepted_types (OneType t) = [t]"
| "accepted_types (TypeTuple ts) = ts"

definition expected_type :: "pytype list \<Rightarrow> error" where
  "expected_type ts = TypeError (''Expected type '' @ join '' or '' (map type_name ts))"

text \<open>
  \<^verbatim>\<open>name = 'of ' + arg[4] if len(arg) == 5 else ''\<close>; the concatenation raises unless the
  fifth element is a string.
\<close>

definition display_name :: "pyval list \<Rightarrow> error + string" where
  "display_name rest =
     (if 2 + length rest = 5 then
        (case rest ! 2 of
           VStr s \<Rightarrow> Inr (''of '' @ s)
         | v \<Rightarrow> Inl (TypeError (''can only concatenate str (not \"'' @ type_name (type_of v)
                                 @ ''\") to str'')))
      else Inr [])"

text \<open>
  \<^verbatim>\<open>
    if hasattr(arg_val, '__len__'):
        val = 'Length'
        num = len(arg_val)
    else:
        val = 'Value'
        num = arg_val
  \<close>
\<close>

definition magnitude_kind :: "pyval \<Rightarrow> string" where
  "magnitude_kind arg_val = (if has_len arg_val then ''Length'' else ''Value'')"

definition magnitude :: "pyval \<Rightarrow> pyval" where
  "magnitude arg_val = (if has_len arg_val then VInt (int (py_len arg_val)) else arg_val)"

text \<open>The body of the loop of \<^verbatim>\<open>validate\<close>, for one rule.\<close>

definition validate_rule :: "rule \<Rightarrow> error + unit" where
  "validate_rule r =
     (case r of Rule arg_val spec rest \<Rightarrow>
        let arg_type = accepted_types spec in
        if \<not> isinstance arg_val arg_type then Inl (expected_type arg_type)
        else if arg_val \<noteq> VNone \<and> 2 + length rest \<ge> 4 then
          (case display_name rest of
             Inl e \<Rightarrow> Inl e
           | Inr name \<Rightarrow>
               let arg_min = rest ! 0;
                   arg_max = rest ! 1;
                   val = magnitude_kind arg_val;
                   num = magnitude arg_val
               in
                 (case (if arg_min \<noteq> VNone then py_lt num arg_min else Inr False) of
                    Inl e \<Rightarrow> Inl e
                  | Inr True \<Rightarrow>
                      Inl (ValueError (val @ '' '' @ name @ '' must be greater or equal to ''
                                        @ str_num arg_min))
                  | Inr False \<Rightarrow>
                      (case (if arg_max \<noteq> VNone then py_ge num arg_max else Inr False) of
                         Inl e \<Rightarrow> Inl e
                       | Inr True \<Rightarrow>
                           Inl (ValueError (val @ '' '' @ name @ '' must be less than ''
                                             @ str_num arg_max))
                       | Inr False \<Rightarrow> Inr ())))
        else Inr ())"

text \<open>\<^verbatim>\<open>validate(*args)\<close>: the rules in order, stopping at the first that raises.\<close>

fun validate :: "rule list \<Rightarrow> error + unit" where
  "validate [] = Inr ()"
| "validate (r # rs) = (case validate_rule r of Inl e \<Rightarrow> Inl e | Inr _ \<Rightarrow> validate rs)"

section \<open>Paths\<close>

text \<open>
  The functions of \<^verbatim>\<open>os.path\<close> that the validators call, as the standard library
  defines them on a POSIX system (\<^verbatim>\<open>posixpath\<close>), on strings.
\<close>

text \<open>\<^verbatim>\<open>s.split(c)\<close> for a separator of one character.\<close>

fun split_on :: "char \<Rightarrow> string \<Rightarrow> string list" where
  "split_on c [] = [[]]"
| "split_on c (x # xs) =
     (if x = c then [] # split_on c xs
      else (case split_on c xs of [] \<Rightarrow> [[x]] | y # ys \<Rightarrow> (x # y) # ys))"

text \<open>\<^verbatim>\<open>s.startswith(p)\<close>, \<^verbatim>\<open>s.endswith(p)\<close>, \<^verbatim>\<open>s.lstrip('/')\<close>, \<^verbatim>\<open>s.rstrip('/')\<close>\<close>

definition startswith :: "string \<Rightarrow> string \<Rightarrow> bool" where
  "startswith s p \<longleftrightarrow> take (length p) s = p"

definition endswith :: "string \<Rightarrow> string \<Rightarrow> bool" where
  "endswith s p \<longleftrightarrow> startswith (rev s) (rev p)"

definition lstrip_sep :: "string \<Rightarrow> string" where
  "lstrip_sep s = dropWhile (\<lambda>c. c = CHR ''/'') s"

definition rstrip_sep :: "string \<Rightarrow> string" where
  "rstrip_sep s = rev (lstrip_sep (rev s))"

text \<open>
  The loop body of \<^verbatim>\<open>normpath\<close>:
  \<^verbatim>\<open>
    if comp in (empty, dot): continue
    if (comp != dotdot or (not initial_slashes and not new_comps) or
         (new_comps and new_comps[-1] == dotdot)):
        new_comps.append(comp)
    elif new_comps:
        new_comps.pop()
  \<close>
\<close>

definition norm_step :: "nat \<Rightarrow> string list \<Rightarrow> string \<Rightarrow> string list" where
  "norm_step initial_slashes new_comps component =
     (if component = [] \<or> component = ''.'' then new_comps
      else if component \<noteq> ''..'' \<or> (initial_slashes = 0 \<and> new_comps = [])
              \<or> (new_comps \<noteq> [] \<and> last new_comps = ''..'')
        then new_comps @ [component]
      else if new_comps \<noteq> [] then butlast new_comps
      else new_comps)"

text \<open>
  \<^verbatim>\<open>os.path.normpath\<close>: one or two leading slashes are kept, three or more become one.
\<close>

definition normpath :: "string \<Rightarrow> string" where
  "normpath path =
     (if path = [] then ''.''
      else
        let initial_slashes =
              (if startswith path ''/'' then
                 (if startswith path ''//'' \<and> \<not> startswith path ''///'' then 2 else 1)
               else (0::nat));
            comps = split_on CHR ''/'' path;
            new_comps = foldl (norm_step initial_slashes) [] comps;
            path1 = join ''/'' new_comps;
            path2 = (if initial_slashes \<noteq> 0 then replicate initial_slashes CHR ''/'' @ path1
                     else path1)
        in if path2 = [] then ''.'' else path2)"

text \<open>\<^verbatim>\<open>os.path.isabs\<close>, \<^verbatim>\<open>os.path.join(a, b)\<close>, \<^verbatim>\<open>os.path.dirname\<close>\<close>

definition isabs :: "string \<Rightarrow> bool" where
  "isabs s = startswith s ''/''"

definition path_join :: "string \<Rightarrow> string \<Rightarrow> string" where
  "path_join a b =
     (if startswith b ''/'' then b
      else if a = [] \<or> endswith a ''/'' then a @ b
      else a @ ''/'' @ b)"

text \<open>
  \<^verbatim>\<open>
    i = p.rfind(sep) + 1
    head = p[:i]
    if head and head != sep*len(head):
        head = head.rstrip(sep)
  \<close>
  The head is the path up to and including its last slash, empty when there is none.
\<close>

definition dirname :: "string \<Rightarrow> string" where
  "dirname p =
     (let head = rev (dropWhile (\<lambda>c. c \<noteq> CHR ''/'') (rev p))
      in if head \<noteq> [] \<and> head \<noteq> replicate (length head) CHR ''/'' then rstrip_sep head
         else head)"

text \<open>
  The file system as the validators see it: the working directory (\<^verbatim>\<open>os.getcwd()\<close>), the
  path strings for which \<^verbatim>\<open>os.path.isfile\<close> answers true, and those for which
  \<^verbatim>\<open>os.path.isdir\<close> does.
\<close>

record filesystem =
  cwd :: string
  files :: "string set"
  dirs :: "string set"

definition isfile :: "filesystem \<Rightarrow> string \<Rightarrow> bool" where
  "isfile fs p \<longleftrightarrow> p \<in> files fs"

definition isdir :: "filesystem \<Rightarrow> string \<Rightarrow> bool" where
  "isdir fs p \<longleftrightarrow> p \<in> dirs fs"

text \<open>\<^verbatim>\<open>os.fspath\<close>: a path argument that is not a string raises.\<close>

definition fspath :: "pyval \<Rightarrow> error + string" where
  "fspath v =
     (case v of
        VStr s \<Rightarrow> Inr s
      | _ \<Rightarrow> Inl (TypeError (''expected str, bytes or os.PathLike object, not ''
                              @ type_name (type_of v))))"

text \<open>
  \<^verbatim>\<open>
    def abspath(path):
        path = os.fspath(path)
        if not isabs(path):
            path = join(os.getcwd(), path)
        return normpath(path)
  \<close>
\<close>

definition abspath_str :: "filesystem \<Rightarrow> string \<Rightarrow> string" where
  "abspath_str fs path = normpath (if \<not> isabs path then path_join (cwd fs) path else path)"

definition abspath :: "filesystem \<Rightarrow> pyval \<Rightarrow> error + string" where
  "abspath fs v = (case fspath v of Inl e \<Rightarrow> Inl e | Inr path \<Rightarrow> Inr (abspath_str fs path))"

section \<open>The path validators\<close>

text \<open>
  \<^verbatim>\<open>
    def validate_existing_filepath(arg):
        validate((arg, str, 0, 255))
        if not os.path.isfile(arg):
            raise ValueError("{0} does not exist.".format(arg))
        return arg
  \<close>
  After \<^verbatim>\<open>validate\<close> the argument is a string.
\<close>

definition validate_existing_filepath :: "filesystem \<Rightarrow> pyval \<Rightarrow> error + pyval" where
  "validate_existing_filepath fs arg =
     (case validate [Rule arg (OneType TStr) [VInt 0, VInt 255]] of
        Inl e \<Rightarrow> Inl e
      | Inr _ \<Rightarrow>
          (case arg of
             VStr p \<Rightarrow> if \<not> isfile fs p then Inl (ValueError (p @ '' does not exist.''))
                       else Inr arg
           | _ \<Rightarrow> Inr arg))"

text \<open>
  \<^verbatim>\<open>
    def validate_existing_directory(arg):
        arg = os.path.abspath(arg)
        validate((arg, str, 0, 255))
        if not os.path.isdir(arg):
            raise ValueError("{0} does not exist".format(arg))
        return arg
  \<close>
\<close>

definition validate_existing_directory :: "filesystem \<Rightarrow> pyval \<Rightarrow> error + string" where
  "validate_existing_directory fs arg0 =
     (case abspath fs arg0 of
        Inl e \<Rightarrow> Inl e
      | Inr arg \<Rightarrow>
          (case validate [Rule (VStr arg) (OneType TStr) [VInt 0, VInt 255]] of
             Inl e \<Rightarrow> Inl e
           | Inr _ \<Rightarrow>
               if \<not> isdir fs arg then Inl (ValueError (arg @ '' does not exist''))
               else Inr arg))"

text \<open>
  \<^verbatim>\<open>
    def validate_parent_exists(arg):
        arg = os.path.abspath(arg)
        dir_arg = os.path.dirname(os.path.abspath(arg))
        if validate_existing_directory(dir_arg):
            return arg
        return None
  \<close>
  The condition is the truth value of the returned string: true unless it is empty.
\<close>

definition validate_parent_exists :: "filesystem \<Rightarrow> pyval \<Rightarrow> error + string option" where
  "validate_parent_exists fs arg0 =
     (case abspath fs arg0 of
        Inl e \<Rightarrow> Inl e
      | Inr arg \<Rightarrow>
          let dir_arg = dirname (abspath_str fs arg) in
          (case validate_existing_directory fs (VStr dir_arg) of
             Inl e \<Rightarrow> Inl e
           | Inr d \<Rightarrow> if d \<noteq> [] then Inr (Some arg) else Inr None))"

text \<open>
  \<^verbatim>\<open>
    def sanitize_path(path):
        s_path = os.path.normpath('/' + path).lstrip('/')
        assert len(s_path) < 255
        return s_path
  \<close>
\<close>

definition sanitize_path :: "pyval \<Rightarrow> error + string" where
  "sanitize_path v =
     (case v of
        VStr path \<Rightarrow>
          let s_path = lstrip_sep (normpath (''/'' @ path))
          in if length s_path < 255 then Inr s_path else Inl AssertionError
      | _ \<Rightarrow> Inl (TypeError (''can only concatenate str (not \"'' @ type_name (type_of v)
                              @ ''\") to str'')))"

section \<open>Regular expressions\<close>

text \<open>
  The patterns of Python's \<^verbatim>\<open>re\<close> module that \<^verbatim>\<open>validate_proxy_path\<close> uses: character
  sets with ranges, \<^verbatim>\<open>\d\<close> and \<^verbatim>\<open>\S\<close>, concatenation, alternation and the repetitions
  \<^verbatim>\<open>{m,n}\<close>, \<^verbatim>\<open>{m,}\<close>, \<^verbatim>\<open>?\<close> and \<^verbatim>\<open>+\<close>, matched under \<^verbatim>\<open>re.IGNORECASE\<close>.
\<close>

datatype item = Lit char | Rng char char | DigitCls | NonSpaceCls

datatype regex =
    Eps
  | Class "item list"
  | Cat regex regex
  | Alt regex regex
  | Rep nat "nat option" regex

definition code :: "char \<Rightarrow> nat" where
  "code c = of_char c"

text \<open>
  Case folding on the ASCII letters. The literals and ranges of the pattern are ASCII, and
  no other character with a code point below 256 folds to an ASCII letter.
\<close>

definition lower :: "char \<Rightarrow> char" where
  "lower c = (if 65 \<le> code c \<and> code c \<le> 90 then char_of (code c + 32) else c)"

definition upper :: "char \<Rightarrow> char" where
  "upper c = (if 97 \<le> code c \<and> code c \<le> 122 then char_of (code c - 32) else c)"

definition in_range :: "char \<Rightarrow> char \<Rightarrow> char \<Rightarrow> bool" where
  "in_range a b c \<longleftrightarrow> code a \<le> code c \<and> code c \<le> code b"

text \<open>
  \<^verbatim>\<open>\s\<close> on a string pattern is Unicode white space: below 256 these are the code points
  9 to 13, 28 to 32, 133 and 160. \<^verbatim>\<open>\d\<close> is a decimal digit: below 256 these are
  \<^verbatim>\<open>0\<close> to \<^verbatim>\<open>9\<close>.
\<close>

definition is_space :: "char \<Rightarrow> bool" where
  "is_space c \<longleftrightarrow> (9 \<le> code c \<and> code c \<le> 13) \<or> (28 \<le> code c \<and> code c \<le> 32)
                   \<or> code c = 133 \<or> code c = 160"

definition is_digit :: "char \<Rightarrow> bool" where
  "is_digit c \<longleftrightarrow> 48 \<le> code c \<and> code c \<le> 57"

fun item_matches :: "item \<Rightarrow> char \<Rightarrow> bool" where
  "item_matches (Lit a) c \<longleftrightarrow> lower c = lower a"
| "item_matches (Rng a b) c \<longleftrightarrow> in_range a b c \<or> in_range a b (lower c) \<or> in_range a b (upper c)"
| "item_matches DigitCls c \<longleftrightarrow> is_digit c"
| "item_matches NonSpaceCls c \<longleftrightarrow> \<not> is_space c"

text \<open>
  Matching computes, for a pattern and an input, every remainder of the input that some
  way of matching a prefix leaves. The engine of \<^verbatim>\<open>re\<close> searches these ways by
  backtracking and reports a match when one of them succeeds.
\<close>

definition step_all :: "(string \<Rightarrow> string list) \<Rightarrow> string list \<Rightarrow> string list" where
  "step_all f ss = remdups (concat (map f ss))"

text \<open>Exactly \<open>n\<close> repetitions, then between none and \<open>n\<close> further ones.\<close>

fun times :: "(string \<Rightarrow> string list) \<Rightarrow> nat \<Rightarrow> string list \<Rightarrow> string list" where
  "times f 0 ss = ss"
| "times f (Suc n) ss = times f n (step_all f ss)"

fun up_to :: "(string \<Rightarrow> string list) \<Rightarrow> nat \<Rightarrow> string list \<Rightarrow> string list" where
  "up_to f 0 ss = ss"
| "up_to f (Suc n) ss = ss @ up_to f n (step_all f ss)"

text \<open>
  A repetition without upper bound needs no more further rounds than the input has
  characters: a round that consumes nothing leaves the remainder as it was.
\<close>

definition repeat :: "(string \<Rightarrow> string list) \<Rightarrow> nat \<Rightarrow> nat option \<Rightarrow> string \<Rightarrow> string list" where
  "repeat f lo hi s =
     up_to f (case hi of Some h \<Rightarrow> h - lo | None \<Rightarrow> length s) (times f lo [s])"

fun rems :: "regex \<Rightarrow> string \<Rightarrow> string list" where
  "rems Eps s = [s]"
| "rems (Class items) s =
     (case s of
        [] \<Rightarrow> []
      | c # t \<Rightarrow> if list_ex (\<lambda>i. item_matches i c) items then [t] else [])"
| "rems (Cat a b) s = concat (map (rems b) (rems a s))"
| "rems (Alt a b) s = rems a s @ rems b s"
| "rems (Rep lo hi a) s = repeat (rems a) lo hi s"

text \<open>
  \<^verbatim>\<open>$\<close> matches at the end of the string and just before a newline that ends the string.
\<close>

definition at_end :: "string \<Rightarrow> bool" where
  "at_end t \<longleftrightarrow> t = [] \<or> t = [CHR 0x0A]"

text \<open>
  \<^verbatim>\<open>re.match(pattern, s) is not None\<close> for a pattern that ends in \<^verbatim>\<open>$\<close>. \<^verbatim>\<open>re.match\<close> tries
  the pattern at the start of the string only, where a leading \<^verbatim>\<open>^\<close> holds.
\<close>

definition re_match :: "regex \<Rightarrow> string \<Rightarrow> bool" where
  "re_match r s = list_ex at_end (rems r s)"

subsection \<open>The proxy pattern\<close>

definition lit :: "string \<Rightarrow> regex" where
  "lit s = foldr (\<lambda>c r. Cat (Class [Lit c]) r) s Eps"

definition opt :: "regex \<Rightarrow> regex" where
  "opt r = Rep 0 (Some 1) r"

definition plus :: "regex \<Rightarrow> regex" where
  "plus r = Rep 1 None r"

text \<open>\<^verbatim>\<open>[A-Z0-9]\<close>, \<^verbatim>\<open>[A-Z0-9-]\<close>, \<^verbatim>\<open>[A-Z]\<close>, \<^verbatim>\<open>\.\<close>, \<^verbatim>\<open>\d\<close>\<close>

definition alnum :: regex where
  "alnum = Class [Rng CHR ''A'' CHR ''Z'', Rng CHR ''0'' CHR ''9'']"

definition alnum_dash :: regex where
  "alnum_dash = Class [Rng CHR ''A'' CHR ''Z'', Rng CHR ''0'' CHR ''9'', Lit CHR ''-'']"

definition alpha :: regex where
  "alpha = Class [Rng CHR ''A'' CHR ''Z'']"

definition dot :: regex where
  "dot = Class [Lit CHR ''.'']"

definition digit :: regex where
  "digit = Class [DigitCls]"

text \<open>\<^verbatim>\<open>(?:http|ftp)s?://\<close>\<close>

definition scheme :: regex where
  "scheme = Cat (Alt (lit ''http'') (lit ''ftp'')) (Cat (opt (lit ''s'')) (lit ''://''))"

text \<open>
  \<^verbatim>\<open>(?:[A-Z0-9](?:[A-Z0-9-]{0,61}[A-Z0-9])?\.)+(?:[A-Z]{2,6}\.?|[A-Z0-9-]{2,}\.?)\<close>
\<close>

definition domain :: regex where
  "domain =
     Cat (plus (Cat alnum (Cat (opt (Cat (Rep 0 (Some 61) alnum_dash) alnum)) dot)))
         (Alt (Cat (Rep 2 (Some 6) alpha) (opt dot))
              (Cat (Rep 2 None alnum_dash) (opt dot)))"

text \<open>\<^verbatim>\<open>\d{1,3}\.\d{1,3}\.\d{1,3}\.\d{1,3}\<close>\<close>

definition ipv4 :: regex where
  "ipv4 =
     Cat (Rep 1 (Some 3) digit) (Cat dot
    (Cat (Rep 1 (Some 3) digit) (Cat dot
    (Cat (Rep 1 (Some 3) digit) (Cat dot
         (Rep 1 (Some 3) digit))))))"

text \<open>\<^verbatim>\<open>(?::\d+)?\<close> and \<^verbatim>\<open>(?:/?|[/?]\S+)\<close>\<close>

definition port :: regex where
  "port = opt (Cat (lit '':'') (plus digit))"

definition path_part :: regex where
  "path_part =
     Alt (opt (lit ''/''))
         (Cat (Class [Lit CHR ''/'', Lit CHR ''?'']) (plus (Class [NonSpaceCls])))"

definition proxy_validation_regex :: regex where
  "proxy_validation_regex =
     Cat scheme (Cat (Alt domain (Alt (lit ''localhost'') ipv4)) (Cat port path_part))"

text \<open>
  \<^verbatim>\<open>
    def validate_proxy_path(arg):
        proxy_validation_regex = re.compile(..., re.IGNORECASE)
        if arg is not None and re.match(proxy_validation_regex, arg) is None:
            raise ValueError("{0} is not a valid proxy path".format(arg))
        return arg
  \<close>
  \<^verbatim>\<open>re.match\<close> raises on an argument that is not a string.
\<close>

definition validate_proxy_path :: "pyval \<Rightarrow> error + pyval" where
  "validate_proxy_path arg =
     (case arg of
        VNone \<Rightarrow> Inr arg
      | VStr s \<Rightarrow>
          if \<not> re_match proxy_validation_regex s
          then Inl (ValueError (s @ '' is not a valid proxy path''))
          else Inr arg
      | _ \<Rightarrow> Inl (TypeError ''expected string or bytes-like object''))"

section \<open>Notions used in the statements\<close>

text \<open>
  A plain path component: not empty, neither \<^verbatim>\<open>.\<close> nor \<^verbatim>\<open>..\<close>, and without a separator.
\<close>

definition plain_component :: "string \<Rightarrow> bool" where
  "plain_component c \<longleftrightarrow> c \<noteq> [] \<and> c \<noteq> ''.'' \<and> c \<noteq> ''..'' \<and> CHR ''/'' \<notin> set c"

text \<open>The length of the components of a path, each counted with one separator.\<close>

definition weight :: "string list \<Rightarrow> nat" where
  "weight cs = sum_list (map (\<lambda>c. Suc (length c)) cs)"

text \<open>
  The language of a pattern: the strings it matches in full. Concatenation of languages, the
  \<open>n\<close>-fold power, and the strings left after a word of a language is taken from the front
  of a string of a set.
\<close>

definition conc :: "string set \<Rightarrow> string set \<Rightarrow> string set" where
  "conc A B = {u @ v | u v. u \<in> A \<and> v \<in> B}"

fun pow :: "string set \<Rightarrow> nat \<Rightarrow> string set" where
  "pow L 0 = {[]}"
| "pow L (Suc n) = conc L (pow L n)"

fun lang :: "regex \<Rightarrow> string set" where
  "lang Eps = {[]}"
| "lang (Class items) = {[c] | c. \<exists>i \<in> set items. item_matches i c}"
| "lang (Cat a b) = conc (lang a) (lang b)"
| "lang (Alt a b) = lang a \<union> lang b"
| "lang (Rep lo hi a) =
     (\<Union>n \<in> {n. lo \<le> n \<and> (case hi of None \<Rightarrow> True | Some h \<Rightarrow> n \<le> h)}. pow (lang a) n)"

text \<open>A pattern compiles only if no repetition has its maximum below its minimum.\<close>

fun bounds_ok :: "regex \<Rightarrow> bool" where
  "bounds_ok Eps = True"
| "bounds_ok (Class items) = True"
| "bounds_ok (Cat a b) = (bounds_ok a \<and> bounds_ok b)"
| "bounds_ok (Alt a b) = (bounds_ok a \<and> bounds_ok b)"
| "bounds_ok (Rep lo hi a) = ((case hi of None \<Rightarrow> True | Some h \<Rightarrow> lo \<le> h) \<and> bounds_ok a)"

definition after :: "string set \<Rightarrow> string set \<Rightarrow> string set" where
  "after L S = {t. \<exists>s \<in> S. \<exists>u \<in> L. s = u @ t}"

text \<open>
  A string matches a pattern anchored with \<^verbatim>\<open>$\<close> when it is in the language, or is a word of
  the language followed by one newline.
\<close>

definition matches_pattern :: "regex \<Rightarrow> string \<Rightarrow> bool" where
  "matches_pattern r s \<longleftrightarrow> s \<in> lang r \<or> (\<exists>u. s = u @ [CHR 0x0A] \<and> u \<in> lang r)"

section \<open>Properties of validate\<close>

lemma validate_single: "validate [r] = validate_rule r"
  by (cases "validate_rule r") auto

lemma sublist_prepend: "sublist x ys \<Longrightarrow> sublist x (ps @ ys)"
proof -
  assume "sublist x ys"
  then obtain a b where "ys = a @ x @ b" by (auto simp: sublist_def)
  then have "ps @ ys = (ps @ a) @ x @ b" by simp
  then show ?thesis unfolding sublist_def by blast
qed

lemma sublist_join_member: "x \<in> set xs \<Longrightarrow> sublist x (join sep xs)"
proof (induction sep xs rule: join.induct)
  case (1 sep)
  then show ?case by simp
next
  case (2 sep y)
  then show ?case by simp
next
  case (3 sep y z zs)
  show ?case
  proof (cases "x = y")
    case True
    then show ?thesis by (simp add: sublist_def) (metis append_Nil)
  next
    case False
    with 3 have "sublist x (join sep (z # zs))" by simp
    then have "sublist x ((y @ sep) @ join sep (z # zs))" by (rule sublist_prepend)
    then show ?thesis by simp
  qed
qed

lemma validate_rule_type_fail:
  "\<not> isinstance v (accepted_types t) \<Longrightarrow>
   validate_rule (Rule v t rest) = Inl (expected_type (accepted_types t))"
  by (simp add: validate_rule_def)

lemma validate_rule_len2:
  "isinstance v (accepted_types t) \<Longrightarrow> validate_rule (Rule v t []) = Inr ()"
  by (simp add: validate_rule_def)

lemma validate_rule_none:
  "isinstance VNone (accepted_types t) \<Longrightarrow> validate_rule (Rule VNone t rest) = Inr ()"
  by (simp add: validate_rule_def)

lemma validate_rule_value_error:
  "validate_rule (Rule v t rest) = Inl (ValueError m) \<Longrightarrow> isinstance v (accepted_types t)"
  by (cases "isinstance v (accepted_types t)") (simp_all add: validate_rule_def expected_type_def)

text \<open>
  C1. For every value \<open>v\<close> and every accepted-type specification \<open>t\<close> (one type or a tuple
  of types), \<^verbatim>\<open>validate((v, t))\<close> succeeds if and only if the type of \<open>v\<close> is a subclass of
  one of the accepted types; when it is not, \<^verbatim>\<open>validate\<close> raises a \<^verbatim>\<open>TypeError\<close> whose
  message is \<^verbatim>\<open>Expected type\<close> followed by the accepted type names joined with \<^verbatim>\<open>or\<close>, so
  that every accepted type name occurs in it.
\<close>

theorem validate_type_check:
  "(validate [Rule v t []] = Inr () \<longleftrightarrow> (\<exists>u \<in> set (accepted_types t). issubclass (type_of v) u)) \<and>
   (\<not> (\<exists>u \<in> set (accepted_types t). issubclass (type_of v) u) \<longrightarrow>
      (\<exists>msg. validate [Rule v t []] = Inl (TypeError msg)
         \<and> msg = ''Expected type '' @ join '' or '' (map type_name (accepted_types t))
         \<and> (\<forall>u \<in> set (accepted_types t). sublist (type_name u) msg)))"
proof -
  let ?ok = "\<exists>u \<in> set (accepted_types t). issubclass (type_of v) u"
  have ok: "?ok \<longleftrightarrow> isinstance v (accepted_types t)"
    by (simp add: isinstance_def list_ex_iff)
  have pass: "?ok \<Longrightarrow> validate [Rule v t []] = Inr ()"
    using ok by (simp add: validate_single validate_rule_len2)
  have fail: "\<not> ?ok \<Longrightarrow> validate [Rule v t []] = Inl (expected_type (accepted_types t))"
    using ok by (simp add: validate_single validate_rule_type_fail)
  have names: "\<forall>u \<in> set (accepted_types t).
      sublist (type_name u) (''Expected type '' @ join '' or '' (map type_name (accepted_types t)))"
  proof
    fix u assume "u \<in> set (accepted_types t)"
    then have "sublist (type_name u) (join '' or '' (map type_name (accepted_types t)))"
      by (intro sublist_join_member) simp
    then show "sublist (type_name u) (''Expected type '' @ join '' or '' (map type_name (accepted_types t)))"
      by (rule sublist_prepend)
  qed
  show ?thesis
  proof (cases ?ok)
    case True
    then show ?thesis using pass by simp
  next
    case False
    then show ?thesis using fail names by (simp add: expected_type_def)
  qed
qed

theorem validate_type_check_witness:
  "\<not> (\<exists>u \<in> set (accepted_types (TypeTuple [TStr, TNoneType])). issubclass (type_of (VInt 5)) u)
   \<and> validate [Rule (VInt 5) (TypeTuple [TStr, TNoneType]) []] = Inl (TypeError ''Expected type str or NoneType'')
   \<and> sublist ''str'' ''Expected type str or NoneType''
   \<and> sublist ''NoneType'' ''Expected type str or NoneType''"
  using validate_type_check [of "VInt 5" "TypeTuple [TStr, TNoneType]"]
  by (simp add: issubclass_def)

lemma display_name_ok:
  "rest = [] \<or> (\<exists>name. rest = [VStr name]) \<or> 2 \<le> length rest \<Longrightarrow>
   \<exists>name. display_name (mn # mx # rest) = Inr name"
  by (auto simp: display_name_def)

lemma magnitude_int:
  "v \<noteq> VNone \<Longrightarrow> \<exists>n. int_value (magnitude v) = Some n"
  by (cases v) (simp_all add: magnitude_def)

lemma check_min:
  "int_value num = Some n \<Longrightarrow> mn = VNone \<or> (\<exists>a. mn = VInt a) \<Longrightarrow>
   (if mn \<noteq> VNone then py_lt num mn else Inr False) = Inr (\<exists>a. mn = VInt a \<and> n < a)"
  by (auto simp: py_lt_def)

lemma check_max:
  "int_value num = Some n \<Longrightarrow> mx = VNone \<or> (\<exists>b. mx = VInt b) \<Longrightarrow>
   (if mx \<noteq> VNone then py_ge num mx else Inr False) = Inr (\<exists>b. mx = VInt b \<and> b \<le> n)"
  by (auto simp: py_ge_def)

lemma validate_rule_range:
  assumes ty: "isinstance v (accepted_types t)" and nn: "v \<noteq> VNone"
    and n: "int_value (magnitude v) = Some n"
    and mn: "mn = VNone \<or> (\<exists>a. mn = VInt a)" and mx: "mx = VNone \<or> (\<exists>b. mx = VInt b)"
    and rest: "rest = [] \<or> (\<exists>name. rest = [VStr name]) \<or> 2 \<le> length rest"
  shows "validate_rule (Rule v t (mn # mx # rest)) =
     (if \<exists>a. mn = VInt a \<and> n < a
      then Inl (ValueError (magnitude_kind v @ '' '' @ projr (display_name (mn # mx # rest))
                            @ '' must be greater or equal to '' @ str_num mn))
      else if \<exists>b. mx = VInt b \<and> b \<le> n
      then Inl (ValueError (magnitude_kind v @ '' '' @ projr (display_name (mn # mx # rest))
                            @ '' must be less than '' @ str_num mx))
      else Inr ())"
proof -
  obtain name where name: "display_name (mn # mx # rest) = Inr name"
    using display_name_ok [OF rest] by blast
  define below where "below \<longleftrightarrow> (\<exists>a. mn = VInt a \<and> n < a)"
  define above where "above \<longleftrightarrow> (\<exists>b. mx = VInt b \<and> b \<le> n)"
  have cmin: "(if mn \<noteq> VNone then py_lt (magnitude v) mn else Inr False) = Inr below"
    unfolding below_def by (rule check_min [OF n mn])
  have cmax: "(if mx \<noteq> VNone then py_ge (magnitude v) mx else Inr False) = Inr above"
    unfolding above_def by (rule check_max [OF n mx])
  have "validate_rule (Rule v t (mn # mx # rest)) =
     (if below
      then Inl (ValueError (magnitude_kind v @ '' '' @ name
                            @ '' must be greater or equal to '' @ str_num mn))
      else if above
      then Inl (ValueError (magnitude_kind v @ '' '' @ name
                            @ '' must be less than '' @ str_num mx))
      else Inr ())"
    unfolding validate_rule_def
    by (cases below; cases above) (simp_all add: ty nn name Let_def cmin cmax del: One_nat_def)
  then show ?thesis
    by (simp add: name below_def above_def)
qed

text \<open>
  C2. For a rule of length at least 4 (the value, the accepted types, \<open>mn\<close>, \<open>mx\<close> and the
  remaining elements \<open>rest\<close>: none, a name, or two and more) whose value passes the type check
  and is not \<^verbatim>\<open>None\<close>, with each bound \<^verbatim>\<open>None\<close> or an integer: \<^verbatim>\<open>validate\<close> raises a
  \<^verbatim>\<open>ValueError\<close> if and only if the minimum is given and the magnitude \<open>n\<close> is below it, or the
  maximum is given and \<open>n\<close> is at least the maximum (the maximum is exclusive), and returns
  otherwise. The magnitude is the length of a string, list or tuple, and the value itself for
  an integer or a boolean. For a string \<open>s\<close>, \<^verbatim>\<open>validate((s, str, lo, hi))\<close> fails if and only
  if \<open>length s < lo\<close> or \<open>hi \<le> length s\<close>, and then with a \<^verbatim>\<open>ValueError\<close>. For the value
  \<^verbatim>\<open>None\<close>, once its type is accepted, no range is checked whatever the other elements are.
  Every value other than \<^verbatim>\<open>None\<close> has a magnitude (\<open>magnitude_int\<close>).
\<close>

theorem validate_range_check:
  "(isinstance v (accepted_types t) \<and> v \<noteq> VNone \<and> int_value (magnitude v) = Some n
     \<and> (mn = VNone \<or> (\<exists>a. mn = VInt a)) \<and> (mx = VNone \<or> (\<exists>b. mx = VInt b))
     \<and> (rest = [] \<or> (\<exists>name. rest = [VStr name]) \<or> 2 \<le> length rest)
    \<longrightarrow> ((\<exists>msg. validate [Rule v t (mn # mx # rest)] = Inl (ValueError msg))
           \<longleftrightarrow> (\<exists>a. mn = VInt a \<and> n < a) \<or> (\<exists>b. mx = VInt b \<and> b \<le> n))
       \<and> (validate [Rule v t (mn # mx # rest)] = Inr ()
           \<longleftrightarrow> \<not> ((\<exists>a. mn = VInt a \<and> n < a) \<or> (\<exists>b. mx = VInt b \<and> b \<le> n))))
   \<and> magnitude (VStr s) = VInt (int (length s))
   \<and> magnitude (VList xs) = VInt (int (length xs))
   \<and> magnitude (VTuple xs) = VInt (int (length xs))
   \<and> magnitude (VInt i) = VInt i
   \<and> magnitude (VBool b) = VBool b
   \<and> ((\<exists>e. validate [Rule (VStr s) (OneType TStr) [VInt lo, VInt hi]] = Inl e)
        \<longleftrightarrow> int (length s) < lo \<or> hi \<le> int (length s))
   \<and> ((\<exists>msg. validate [Rule (VStr s) (OneType TStr) [VInt lo, VInt hi]] = Inl (ValueError msg))
        \<longleftrightarrow> int (length s) < lo \<or> hi \<le> int (length s))
   \<and> (isinstance VNone (accepted_types t) \<longrightarrow> validate [Rule VNone t others] = Inr ())"
proof -
  have general: "((\<exists>msg. validate [Rule v t (mn # mx # rest)] = Inl (ValueError msg))
           \<longleftrightarrow> (\<exists>a. mn = VInt a \<and> n < a) \<or> (\<exists>b. mx = VInt b \<and> b \<le> n))
       \<and> (validate [Rule v t (mn # mx # rest)] = Inr ()
           \<longleftrightarrow> \<not> ((\<exists>a. mn = VInt a \<and> n < a) \<or> (\<exists>b. mx = VInt b \<and> b \<le> n)))"
    if "isinstance v (accepted_types t)" "v \<noteq> VNone" "int_value (magnitude v) = Some n"
       "mn = VNone \<or> (\<exists>a. mn = VInt a)" "mx = VNone \<or> (\<exists>b. mx = VInt b)"
       "rest = [] \<or> (\<exists>name. rest = [VStr name]) \<or> 2 \<le> length rest"
    unfolding validate_single validate_rule_range [OF that] by simp
  have A: "isinstance v (accepted_types t) \<and> v \<noteq> VNone \<and> int_value (magnitude v) = Some n
     \<and> (mn = VNone \<or> (\<exists>a. mn = VInt a)) \<and> (mx = VNone \<or> (\<exists>b. mx = VInt b))
     \<and> (rest = [] \<or> (\<exists>name. rest = [VStr name]) \<or> 2 \<le> length rest)
    \<longrightarrow> ((\<exists>msg. validate [Rule v t (mn # mx # rest)] = Inl (ValueError msg))
           \<longleftrightarrow> (\<exists>a. mn = VInt a \<and> n < a) \<or> (\<exists>b. mx = VInt b \<and> b \<le> n))
       \<and> (validate [Rule v t (mn # mx # rest)] = Inr ()
           \<longleftrightarrow> \<not> ((\<exists>a. mn = VInt a \<and> n < a) \<or> (\<exists>b. mx = VInt b \<and> b \<le> n)))"
    using general by blast
  have B: "magnitude (VStr s) = VInt (int (length s))"
    "magnitude (VList xs) = VInt (int (length xs))"
    "magnitude (VTuple xs) = VInt (int (length xs))"
    "magnitude (VInt i) = VInt i"
    "magnitude (VBool b) = VBool b"
    by (simp_all add: magnitude_def)
  have str_ty: "isinstance (VStr s) (accepted_types (OneType TStr))"
    by (simp add: isinstance_def issubclass_def)
  have str_mag: "int_value (magnitude (VStr s)) = Some (int (length s))"
    by (simp add: magnitude_def)
  have str_rule: "validate_rule (Rule (VStr s) (OneType TStr) [VInt lo, VInt hi]) =
     (if int (length s) < lo
      then Inl (ValueError (magnitude_kind (VStr s) @ '' '' @ projr (display_name [VInt lo, VInt hi])
                            @ '' must be greater or equal to '' @ str_num (VInt lo)))
      else if hi \<le> int (length s)
      then Inl (ValueError (magnitude_kind (VStr s) @ '' '' @ projr (display_name [VInt lo, VInt hi])
                            @ '' must be less than '' @ str_num (VInt hi)))
      else Inr ())"
    using validate_rule_range [OF str_ty _ str_mag, of "VInt lo" "VInt hi" "[]"] by simp
  have C: "(\<exists>e. validate [Rule (VStr s) (OneType TStr) [VInt lo, VInt hi]] = Inl e)
        \<longleftrightarrow> int (length s) < lo \<or> hi \<le> int (length s)"
    unfolding validate_single str_rule by simp
  have D: "(\<exists>msg. validate [Rule (VStr s) (OneType TStr) [VInt lo, VInt hi]] = Inl (ValueError msg))
        \<longleftrightarrow> int (length s) < lo \<or> hi \<le> int (length s)"
    unfolding validate_single str_rule by simp
  have E: "isinstance VNone (accepted_types t) \<longrightarrow> validate [Rule VNone t others] = Inr ()"
    unfolding validate_single by (simp add: validate_rule_none)
  show ?thesis
    by (intro conjI A B C D E)
qed

theorem validate_range_check_witness:
  "isinstance (VInt 1000) (accepted_types (OneType TInt))
   \<and> int_value (magnitude (VInt 1000)) = Some 1000
   \<and> validate [Rule (VInt 999) (OneType TInt) [VInt 1, VInt 1000]] = Inr ()
   \<and> validate [Rule (VInt 1000) (OneType TInt) [VInt 1, VInt 1000]]
       = Inl (ValueError ''Value  must be less than 1000'')
   \<and> validate [Rule (VInt 0) (OneType TInt) [VInt 1, VNone, VStr ''depth'']]
       = Inl (ValueError ''Value of depth must be greater or equal to 1'')
   \<and> isinstance VNone (accepted_types (TypeTuple [TInt, TNoneType]))
   \<and> validate [Rule VNone (TypeTuple [TInt, TNoneType]) [VInt 1, VInt 1000]] = Inr ()"
  using validate_range_check [of "VInt 1000" "OneType TInt" 1000 "VInt 1" "VInt 1000" "[]"]
        validate_range_check [of "VInt 999" "OneType TInt" 999 "VInt 1" "VInt 1000" "[]"]
        validate_range_check [of "VInt 0" "OneType TInt" 0 "VInt 1" "VNone" "[VStr ''depth'']"]
        validate_range_check [of _ "TypeTuple [TInt, TNoneType]" _ _ _ _ _ _ _ _ _ _ "[VInt 1, VInt 1000]"]
  by (simp add: isinstance_def issubclass_def magnitude_def validate_rule_def display_name_def
        magnitude_kind_def py_lt_def py_ge_def str_int_def digits.simps)

text \<open>
  C8. The type check of a rule comes before its range check: a value that fails the type
  check raises the \<^verbatim>\<open>TypeError\<close> of the type check whatever the bounds and the magnitude
  are, and a \<^verbatim>\<open>ValueError\<close> is raised only for a value whose type was accepted.
\<close>

theorem validate_type_before_range:
  "(\<not> isinstance v (accepted_types t) \<longrightarrow>
      validate [Rule v t rest] =
        Inl (TypeError (''Expected type '' @ join '' or '' (map type_name (accepted_types t)))))
   \<and> (validate [Rule v t rest] = Inl (ValueError msg) \<longrightarrow> isinstance v (accepted_types t))"
  unfolding validate_single
  using validate_rule_type_fail [of v t rest] validate_rule_value_error [of v t rest msg]
  by (auto simp: expected_type_def)

theorem validate_type_before_range_witness:
  "\<not> isinstance (VStr ''abc'') (accepted_types (OneType TInt))
   \<and> validate [Rule (VStr ''abc'') (OneType TInt) [VInt 5, VInt 10]] = Inl (TypeError ''Expected type int'')
   \<and> validate [Rule (VInt 3) (OneType TInt) [VInt 5, VInt 10]] = Inl (ValueError ''Value  must be greater or equal to 5'')
   \<and> isinstance (VInt 3) (accepted_types (OneType TInt))"
  using validate_type_before_range [of "VStr ''abc''" "OneType TInt" "[VInt 5, VInt 10]"]
    validate_type_before_range [of "VInt 3" "OneType TInt" "[VInt 5, VInt 10]" "''Value  must be greater or equal to 5''"]
  by (simp add: isinstance_def issubclass_def validate_rule_def display_name_def magnitude_def magnitude_kind_def py_lt_def str_int_def digits.simps)

section \<open>Properties of sanitize_path\<close>

lemma split_on_nonempty: "split_on c s \<noteq> []"
  by (induction s) (auto split: list.splits)

lemma split_on_no_sep: "x \<in> set (split_on c s) \<Longrightarrow> c \<notin> set x"
proof (induction s arbitrary: x)
  case Nil
  then show ?case by simp
next
  case (Cons a s)
  then show ?case
    by (cases "split_on c s") (auto split: if_splits)
qed

lemma split_on_append_sep:
  "c \<notin> set x \<Longrightarrow> split_on c (x @ c # s) = x # split_on c s"
  by (induction x) auto

lemma split_on_plain: "c \<notin> set x \<Longrightarrow> split_on c x = [x]"
  by (induction x) auto

lemma split_on_join:
  "xs \<noteq> [] \<Longrightarrow> \<forall>x \<in> set xs. c \<notin> set x \<Longrightarrow> split_on c (join [c] xs) = xs"
proof (induction "[c]" xs rule: join.induct)
  case 1
  then show ?case by simp
next
  case (2 x)
  then show ?case by (simp add: split_on_plain)
next
  case (3 x y ys)
  then show ?case by (simp add: split_on_append_sep)
qed

lemma norm_step_plain:
  "0 < k \<Longrightarrow> \<forall>c \<in> set acc. plain_component c \<Longrightarrow> CHR ''/'' \<notin> set x \<Longrightarrow>
   \<forall>c \<in> set (norm_step k acc x). plain_component c"
  by (auto simp: norm_step_def plain_component_def dest: in_set_butlastD)

lemma foldl_norm_step_plain:
  "0 < k \<Longrightarrow> \<forall>c \<in> set acc. plain_component c \<Longrightarrow> \<forall>x \<in> set xs. CHR ''/'' \<notin> set x \<Longrightarrow>
   \<forall>c \<in> set (foldl (norm_step k) acc xs). plain_component c"
proof (induction xs arbitrary: acc)
  case Nil
  then show ?case by simp
next
  case (Cons x xs)
  have "\<forall>c \<in> set (norm_step k acc x). plain_component c"
    using Cons.prems by (intro norm_step_plain) auto
  then show ?case
    using Cons.IH [of "norm_step k acc x"] Cons.prems by simp
qed

lemma foldl_norm_step_id:
  "\<forall>x \<in> set xs. plain_component x \<Longrightarrow> foldl (norm_step k) acc xs = acc @ xs"
  by (induction xs arbitrary: acc) (auto simp: norm_step_def plain_component_def)

lemma join_plain_no_leading_sep:
  "\<forall>x \<in> set xs. plain_component x \<Longrightarrow> \<not> startswith (join ''/'' xs) ''/''"
proof (induction "''/''" xs rule: join.induct)
  case 1
  then show ?case by (simp add: startswith_def)
next
  case (2 x)
  then show ?case by (cases x) (auto simp: startswith_def plain_component_def)
next
  case (3 x y ys)
  then show ?case by (cases x) (auto simp: startswith_def plain_component_def)
qed

lemma lstrip_sep_id: "\<not> startswith s ''/'' \<Longrightarrow> lstrip_sep s = s"
  by (cases s) (auto simp: startswith_def lstrip_sep_def)

lemma lstrip_sep_replicate: "lstrip_sep (replicate k CHR ''/'' @ s) = lstrip_sep s"
  by (induction k) (auto simp: lstrip_sep_def)

lemma weight_split_on: "weight (split_on c s) = Suc (length s)"
proof (induction s)
  case Nil
  then show ?case by (simp add: weight_def)
next
  case (Cons a s)
  then show ?case
    by (cases "split_on c s") (auto simp: weight_def split_on_nonempty)
qed

lemma weight_butlast: "weight (butlast cs) \<le> weight cs"
  by (induction cs) (auto simp: weight_def)

lemma weight_norm_step: "weight (norm_step k acc x) \<le> weight acc + Suc (length x)"
  using weight_butlast [of acc] by (auto simp: norm_step_def weight_def)

lemma weight_foldl_norm_step: "weight (foldl (norm_step k) acc xs) \<le> weight acc + weight xs"
proof (induction xs arbitrary: acc)
  case Nil
  then show ?case by (simp add: weight_def)
next
  case (Cons x xs)
  have "weight (foldl (norm_step k) (norm_step k acc x) xs) \<le> weight (norm_step k acc x) + weight xs"
    by (rule Cons.IH)
  also have "\<dots> \<le> weight acc + Suc (length x) + weight xs"
    using weight_norm_step [of k acc x] by simp
  finally show ?case by (simp add: weight_def)
qed

lemma length_join_weight_nonempty: "cs \<noteq> [] \<Longrightarrow> Suc (length (join ''/'' cs)) \<le> weight cs"
  by (induction "''/''" cs rule: join.induct) (auto simp: weight_def)

text \<open>The normalised form of a rooted path: one or two slashes, then plain components.\<close>

lemma normpath_rooted:
  "\<exists>k cs. (k = 1 \<or> k = 2) \<and> (\<forall>c \<in> set cs. plain_component c)
     \<and> length (join ''/'' cs) \<le> length p
     \<and> normpath (CHR ''/'' # p) = replicate k CHR ''/'' @ join ''/'' cs"
proof -
  define k :: nat where
    "k = (if startswith (CHR ''/'' # p) ''//'' \<and> \<not> startswith (CHR ''/'' # p) ''///'' then 2 else 1)"
  define cs where "cs = foldl (norm_step k) [] (split_on CHR ''/'' (CHR ''/'' # p))"
  have k: "0 < k" and k12: "k = 1 \<or> k = 2" by (simp_all add: k_def)
  have plain: "\<forall>c \<in> set cs. plain_component c"
    unfolding cs_def by (rule foldl_norm_step_plain [OF k]) (auto dest: split_on_no_sep)
  have "cs = foldl (norm_step k) [] (split_on CHR ''/'' p)"
    by (simp add: cs_def norm_step_def)
  then have "weight cs \<le> Suc (length p)"
    using weight_foldl_norm_step [of k "[]" "split_on CHR ''/'' p"]
      weight_split_on [of "CHR ''/''" p]
    by (simp add: weight_def)
  then have len: "length (join ''/'' cs) \<le> length p"
    using length_join_weight_nonempty [of cs] by (cases "cs = []") auto
  have "normpath (CHR ''/'' # p) = replicate k CHR ''/'' @ join ''/'' cs"
    using k unfolding normpath_def cs_def k_def
    by (simp add: startswith_def Let_def)
  with k12 plain len show ?thesis by blast
qed

lemma sanitize_path_form:
  "\<exists>cs. (\<forall>c \<in> set cs. plain_component c) \<and> length (join ''/'' cs) \<le> length p
     \<and> lstrip_sep (normpath (CHR ''/'' # p)) = join ''/'' cs"
proof -
  obtain k cs where plain: "\<forall>c \<in> set cs. plain_component c"
    and len: "length (join ''/'' cs) \<le> length p"
    and np: "normpath (CHR ''/'' # p) = replicate k CHR ''/'' @ join ''/'' cs"
    using normpath_rooted by blast
  have "lstrip_sep (normpath (CHR ''/'' # p)) = join ''/'' cs"
    unfolding np lstrip_sep_replicate
    by (rule lstrip_sep_id) (rule join_plain_no_leading_sep [OF plain])
  with plain len show ?thesis by blast
qed

lemma normpath_of_plain:
  assumes plain: "\<forall>c \<in> set cs. plain_component c"
  shows "normpath (CHR ''/'' # join ''/'' cs) = CHR ''/'' # join ''/'' cs"
proof -
  let ?s = "join ''/'' cs"
  have ns: "\<not> startswith ?s ''/''" by (rule join_plain_no_leading_sep [OF plain])
  then have two: "\<not> startswith (CHR ''/'' # ?s) ''//''"
    by (cases ?s) (auto simp: startswith_def)
  have one: "startswith (CHR ''/'' # ?s) ''/''" by (simp add: startswith_def)
  have fold: "foldl (norm_step 1) [] (split_on CHR ''/'' (CHR ''/'' # ?s)) = cs"
  proof (cases "cs = []")
    case True
    then show ?thesis by (simp add: norm_step_def)
  next
    case False
    have "\<forall>x \<in> set cs. CHR ''/'' \<notin> set x" using plain by (simp add: plain_component_def)
    then have "split_on CHR ''/'' ?s = cs"
      using split_on_join [OF False, of "CHR ''/''"] by simp
    then show ?thesis
      using foldl_norm_step_id [OF plain, of 1 "[]"] by (simp add: norm_step_def)
  qed
  show ?thesis
    unfolding normpath_def using one two fold by (simp add: Let_def)
qed


lemma no_dotdot_in_plain:
  assumes plain: "\<forall>c \<in> set cs. plain_component c"
  shows "''..'' \<notin> set (split_on CHR ''/'' (join ''/'' cs))"
proof (cases "cs = []")
  case True
  then show ?thesis by simp
next
  case False
  have "\<forall>x \<in> set cs. CHR ''/'' \<notin> set x" using plain by (simp add: plain_component_def)
  then have "split_on CHR ''/'' (join ''/'' cs) = cs"
    using split_on_join [OF False, of "CHR ''/''"] by simp
  then show ?thesis using plain by (auto simp: plain_component_def)
qed

lemma sanitize_path_str:
  "sanitize_path (VStr p) =
     (if length (lstrip_sep (normpath (CHR ''/'' # p))) < 255
      then Inr (lstrip_sep (normpath (CHR ''/'' # p))) else Inl AssertionError)"
  by (simp add: sanitize_path_def Let_def)

text \<open>
  C3, as amended. Whenever \<^verbatim>\<open>sanitize_path\<close> returns, the result does not start with a
  separator, none of its components is \<^verbatim>\<open>..\<close>, and it is shorter than 255 characters. It
  returns for every input shorter than 255 characters, since normalising never lengthens a
  path; when it does not return, the assertion has failed. On \<^verbatim>\<open>../../etc/passwd\<close> it returns
  \<^verbatim>\<open>etc/passwd\<close>.
\<close>

theorem sanitize_path_relative:
  "(sanitize_path (VStr p) = Inr s \<longrightarrow>
      \<not> startswith s ''/'' \<and> ''..'' \<notin> set (split_on CHR ''/'' s) \<and> length s < 255)
   \<and> (length p < 255 \<longrightarrow> (\<exists>r. sanitize_path (VStr p) = Inr r))
   \<and> ((\<forall>r. sanitize_path (VStr p) \<noteq> Inr r) \<longrightarrow> sanitize_path (VStr p) = Inl AssertionError)
   \<and> sanitize_path (VStr ''../../etc/passwd'') = Inr ''etc/passwd''"
proof -
  obtain cs where plain: "\<forall>c \<in> set cs. plain_component c"
    and len: "length (join ''/'' cs) \<le> length p"
    and form: "lstrip_sep (normpath (CHR ''/'' # p)) = join ''/'' cs"
    using sanitize_path_form by blast
  have A: "sanitize_path (VStr p) = Inr s \<longrightarrow>
      \<not> startswith s ''/'' \<and> ''..'' \<notin> set (split_on CHR ''/'' s) \<and> length s < 255"
    using join_plain_no_leading_sep [OF plain] no_dotdot_in_plain [OF plain]
    by (auto simp: sanitize_path_str form split: if_splits)
  have B: "length p < 255 \<longrightarrow> (\<exists>r. sanitize_path (VStr p) = Inr r)"
    using len by (simp add: sanitize_path_str form)
  have C: "(\<forall>r. sanitize_path (VStr p) \<noteq> Inr r) \<longrightarrow> sanitize_path (VStr p) = Inl AssertionError"
    by (simp add: sanitize_path_str)
  have D: "sanitize_path (VStr ''../../etc/passwd'') = Inr ''etc/passwd''"
    by (simp add: sanitize_path_def normpath_def startswith_def norm_step_def lstrip_sep_def)
  show ?thesis by (intro conjI A B C D)
qed

theorem sanitize_path_relative_witness:
  "sanitize_path (VStr ''/a/./b/../../../c//d'') = Inr ''c/d''
   \<and> length ''/a/./b/../../../c//d'' < 255
   \<and> \<not> startswith ''c/d'' ''/'' \<and> ''..'' \<notin> set (split_on CHR ''/'' ''c/d'') \<and> length ''c/d'' < 255
   \<and> sanitize_path (VStr (replicate 300 CHR ''b'')) = Inl AssertionError"
proof -
  have long: "sanitize_path (VStr (replicate 300 CHR ''b'')) = Inl AssertionError"
    by code_simp
  then have none: "\<forall>r. sanitize_path (VStr (replicate 300 CHR ''b'')) \<noteq> Inr r"
    by simp
  show ?thesis
    using sanitize_path_relative [of "''/a/./b/../../../c//d''" "''c/d''"]
      sanitize_path_relative [of "replicate 300 CHR ''b''" "[]"] none
    by (simp add: sanitize_path_def normpath_def startswith_def norm_step_def lstrip_sep_def
        numeral_2_eq_2)
qed

text \<open>
  C3 as stated promises a result for every input path. A path of 255 letters is its own
  normal form, and the assertion on the length fails.
\<close>

theorem sanitize_path_long_counterexample:
  "sanitize_path (VStr (replicate 255 CHR ''a'')) = Inl AssertionError"
  by code_simp

text \<open>
  C7. \<^verbatim>\<open>sanitize_path\<close> is idempotent: a result it returns is returned unchanged when it is
  sanitized again.
\<close>

theorem sanitize_path_idempotent:
  "sanitize_path (VStr p) = Inr s \<Longrightarrow> sanitize_path (VStr s) = Inr s"
proof -
  assume ret: "sanitize_path (VStr p) = Inr s"
  obtain cs where plain: "\<forall>c \<in> set cs. plain_component c"
    and form: "lstrip_sep (normpath (CHR ''/'' # p)) = join ''/'' cs"
    using sanitize_path_form by blast
  from ret have s: "s = join ''/'' cs" and len: "length s < 255"
    by (auto simp: sanitize_path_str form split: if_splits)
  have "lstrip_sep (normpath (CHR ''/'' # s)) = lstrip_sep (CHR ''/'' # s)"
    unfolding s by (simp add: normpath_of_plain [OF plain])
  also have "\<dots> = lstrip_sep s"
    using lstrip_sep_replicate [of 1 s] by simp
  also have "\<dots> = s"
    unfolding s by (rule lstrip_sep_id) (rule join_plain_no_leading_sep [OF plain])
  finally show ?thesis using len by (simp add: sanitize_path_str)
qed

theorem sanitize_path_idempotent_witness:
  "sanitize_path (VStr ''../../etc/passwd'') = Inr ''etc/passwd''
   \<and> sanitize_path (VStr ''etc/passwd'') = Inr ''etc/passwd''"
  using sanitize_path_idempotent [of "''../../etc/passwd''" "''etc/passwd''"]
  by (simp add: sanitize_path_def normpath_def startswith_def norm_step_def lstrip_sep_def)

section \<open>Properties of the path validators\<close>

lemma validate_str_255:
  "validate [Rule (VStr p) (OneType TStr) [VInt 0, VInt 255]] =
     (if length p < 255 then Inr () else Inl (ValueError ''Length  must be less than 255''))"
  by (simp add: validate_rule_def isinstance_def issubclass_def display_name_def magnitude_def
      magnitude_kind_def py_lt_def py_ge_def str_int_def digits.simps)

lemma validate_not_str:
  "\<forall>p. v \<noteq> VStr p \<Longrightarrow>
   validate [Rule v (OneType TStr) rest] = Inl (TypeError ''Expected type str'')"
  by (cases v) (simp_all add: validate_rule_def isinstance_def issubclass_def expected_type_def)

lemma validate_existing_filepath_str:
  "validate_existing_filepath fs (VStr p) =
     (if 255 \<le> length p then Inl (ValueError ''Length  must be less than 255'')
      else if \<not> isfile fs p then Inl (ValueError (p @ '' does not exist.''))
      else Inr (VStr p))"
  unfolding validate_existing_filepath_def validate_str_255 by simp

lemma validate_existing_filepath_not_str:
  "\<forall>p. v \<noteq> VStr p \<Longrightarrow>
   validate_existing_filepath fs v = Inl (TypeError ''Expected type str'')"
  by (simp add: validate_existing_filepath_def validate_not_str del: validate.simps)

lemma validate_existing_directory_str:
  "validate_existing_directory fs (VStr p) =
     (if 255 \<le> length (abspath_str fs p) then Inl (ValueError ''Length  must be less than 255'')
      else if \<not> isdir fs (abspath_str fs p)
        then Inl (ValueError (abspath_str fs p @ '' does not exist''))
      else Inr (abspath_str fs p))"
  unfolding validate_existing_directory_def abspath_def fspath_def validate_str_255 by simp

lemma normpath_nonempty: "normpath s \<noteq> []"
  by (simp add: normpath_def Let_def)

lemma abspath_str_nonempty: "abspath_str fs p \<noteq> []"
  by (simp add: abspath_str_def normpath_nonempty)

lemma validate_existing_directory_nonempty:
  "validate_existing_directory fs v = Inr d \<Longrightarrow> d \<noteq> []"
  by (auto simp: validate_existing_directory_def abspath_def abspath_str_nonempty
      split: sum.splits if_splits)

text \<open>
  C6. \<^verbatim>\<open>validate_existing_filepath\<close> first validates that the argument is a string (a
  \<^verbatim>\<open>TypeError\<close> otherwise) whose length is at least 0 and below 255 (a \<^verbatim>\<open>ValueError\<close>
  otherwise), then raises a \<^verbatim>\<open>ValueError\<close> naming the path if no file exists there, and returns
  the path otherwise. Where no file \<^verbatim>\<open>/nonexistent/file.txt\<close> exists, that path fails with a
  \<^verbatim>\<open>ValueError\<close>.
\<close>

theorem validate_existing_filepath_checks:
  "((\<forall>p. arg \<noteq> VStr p) \<longrightarrow>
      validate_existing_filepath fs arg = Inl (TypeError ''Expected type str''))
   \<and> (255 \<le> length p \<longrightarrow>
      validate_existing_filepath fs (VStr p) = Inl (ValueError ''Length  must be less than 255''))
   \<and> (length p < 255 \<and> \<not> isfile fs p \<longrightarrow>
      validate_existing_filepath fs (VStr p) = Inl (ValueError (p @ '' does not exist.'')))
   \<and> (length p < 255 \<and> isfile fs p \<longrightarrow>
      validate_existing_filepath fs (VStr p) = Inr (VStr p))
   \<and> (\<not> isfile fs ''/nonexistent/file.txt'' \<longrightarrow>
      validate_existing_filepath fs (VStr ''/nonexistent/file.txt'')
        = Inl (ValueError ''/nonexistent/file.txt does not exist.''))"
  using validate_existing_filepath_not_str [of arg fs]
  by (simp add: validate_existing_filepath_str)

theorem validate_existing_filepath_checks_witness:
  "validate_existing_filepath \<lparr>cwd = ''/home/user'', files = {''/data/glove.txt''}, dirs = {''/data''}\<rparr>
      (VInt 3) = Inl (TypeError ''Expected type str'')
   \<and> validate_existing_filepath \<lparr>cwd = ''/home/user'', files = {''/data/glove.txt''}, dirs = {''/data''}\<rparr>
      (VStr (replicate 255 CHR ''a'')) = Inl (ValueError ''Length  must be less than 255'')
   \<and> validate_existing_filepath \<lparr>cwd = ''/home/user'', files = {''/data/glove.txt''}, dirs = {''/data''}\<rparr>
      (VStr ''/data/glove.txt'') = Inr (VStr ''/data/glove.txt'')
   \<and> validate_existing_filepath \<lparr>cwd = ''/home/user'', files = {''/data/glove.txt''}, dirs = {''/data''}\<rparr>
      (VStr ''/data'') = Inl (ValueError ''/data does not exist.'')
   \<and> validate_existing_filepath \<lparr>cwd = ''/home/user'', files = {''/data/glove.txt''}, dirs = {''/data''}\<rparr>
      (VStr ''/nonexistent/file.txt'') = Inl (ValueError ''/nonexistent/file.txt does not exist.'')"
  using
    validate_existing_filepath_checks [where arg = "VInt 3" and p = "replicate 255 CHR ''a''"
      and fs = "\<lparr>cwd = ''/home/user'', files = {''/data/glove.txt''}, dirs = {''/data''}\<rparr>"]
    validate_existing_filepath_checks [where arg = "VInt 3" and p = "''/data/glove.txt''"
      and fs = "\<lparr>cwd = ''/home/user'', files = {''/data/glove.txt''}, dirs = {''/data''}\<rparr>"]
    validate_existing_filepath_checks [where arg = "VInt 3" and p = "''/data''"
      and fs = "\<lparr>cwd = ''/home/user'', files = {''/data/glove.txt''}, dirs = {''/data''}\<rparr>"]
  by (simp add: isfile_def)

text \<open>
  C9. On success \<^verbatim>\<open>validate_existing_filepath\<close> returns its argument unchanged, whereas
  \<^verbatim>\<open>validate_existing_directory\<close> makes its argument absolute before any validation: it
  returns the absolute path, and both the length check and the existence check are applied
  to the absolute path, not to the argument as given.
\<close>

theorem existing_path_results:
  "(validate_existing_filepath fs arg = Inr r \<longrightarrow> r = arg)
   \<and> (validate_existing_directory fs (VStr p) = Inr d \<longrightarrow>
        d = abspath_str fs p \<and> length (abspath_str fs p) < 255 \<and> isdir fs (abspath_str fs p))
   \<and> (255 \<le> length (abspath_str fs p) \<longrightarrow>
        validate_existing_directory fs (VStr p) = Inl (ValueError ''Length  must be less than 255''))
   \<and> (length (abspath_str fs p) < 255 \<and> isdir fs (abspath_str fs p) \<longrightarrow>
        validate_existing_directory fs (VStr p) = Inr (abspath_str fs p))
   \<and> (length (abspath_str fs p) < 255 \<and> \<not> isdir fs (abspath_str fs p) \<longrightarrow>
        validate_existing_directory fs (VStr p)
          = Inl (ValueError (abspath_str fs p @ '' does not exist'')))"
proof -
  have A: "validate_existing_filepath fs arg = Inr r \<longrightarrow> r = arg"
  proof (cases "\<exists>p. arg = VStr p")
    case True
    then show ?thesis by (auto simp: validate_existing_filepath_str split: if_splits)
  next
    case False
    then show ?thesis by (simp add: validate_existing_filepath_not_str)
  qed
  show ?thesis
    using A by (auto simp: validate_existing_directory_str)
qed

theorem existing_path_results_witness:
  "validate_existing_filepath \<lparr>cwd = ''/home/user'', files = {''data''}, dirs = {''/home/user/data''}\<rparr>
      (VStr ''data'') = Inr (VStr ''data'')
   \<and> validate_existing_directory \<lparr>cwd = ''/home/user'', files = {''data''}, dirs = {''/home/user/data''}\<rparr>
      (VStr ''data'') = Inr ''/home/user/data''
   \<and> 255 \<le> length (concat (replicate 130 ''./'') @ ''data'')
   \<and> validate_existing_directory \<lparr>cwd = ''/home/user'', files = {''data''}, dirs = {''/home/user/data''}\<rparr>
      (VStr (concat (replicate 130 ''./'') @ ''data'')) = Inr ''/home/user/data''
   \<and> validate_existing_directory \<lparr>cwd = ''/home/user'', files = {''data''}, dirs = {''/home/user/data''}\<rparr>
      (VStr ''../cache'') = Inl (ValueError ''/home/cache does not exist'')
   \<and> length ''x'' < 255
   \<and> validate_existing_directory \<lparr>cwd = replicate 254 CHR ''c'', files = {}, dirs = {}\<rparr>
      (VStr ''x'') = Inl (ValueError ''Length  must be less than 255'')"
proof -
  let ?fs = "\<lparr>cwd = ''/home/user'', files = {''data''}, dirs = {''/home/user/data''}\<rparr>"
  let ?long = "concat (replicate 130 ''./'') @ ''data''"
  let ?deep = "\<lparr>cwd = replicate 254 CHR ''c'', files = {}, dirs = {}\<rparr>"
  have a1: "abspath_str ?fs ''data'' = ''/home/user/data''" by code_simp
  have a2: "abspath_str ?fs ?long = ''/home/user/data''" by code_simp
  have a3: "length (abspath_str ?deep ''x'') = 256" by code_simp
  have a4: "abspath_str ?fs ''../cache'' = ''/home/cache''" by code_simp
  have l: "255 \<le> length ?long" by code_simp
  show ?thesis
    using l
      existing_path_results [where fs = ?fs and arg = "VStr ''data''" and r = "VStr ''data''"
        and p = "''data''" and d = "''/home/user/data''"]
      existing_path_results [where fs = ?fs and arg = "VStr ''data''" and r = "VStr ''data''"
        and p = ?long and d = "''/home/user/data''"]
      existing_path_results [where fs = ?fs and arg = "VStr ''data''" and r = "VStr ''data''"
        and p = "''../cache''" and d = "''/home/user/data''"]
      existing_path_results [where fs = ?deep and arg = "VStr ''data''" and r = "VStr ''data''"
        and p = "''x''" and d = "''/home/user/data''"]
    by (simp add: a1 a2 a3 a4 isdir_def isfile_def validate_existing_filepath_str)
qed

text \<open>
  With an absolute working directory an absolute path is its own absolute path, and so is
  its directory name.
\<close>

lemma normpath_normal:
  assumes k: "k = 1 \<or> k = 2" and plain: "\<forall>c \<in> set cs. plain_component c"
  shows "normpath (replicate k CHR ''/'' @ join ''/'' cs) = replicate k CHR ''/'' @ join ''/'' cs"
proof -
  let ?s = "join ''/'' cs"
  have ns: "\<not> startswith ?s ''/''" by (rule join_plain_no_leading_sep [OF plain])
  have split: "foldl (norm_step k) [] (split_on CHR ''/'' ?s) = cs"
  proof (cases "cs = []")
    case True
    then show ?thesis by (simp add: norm_step_def)
  next
    case False
    have "\<forall>x \<in> set cs. CHR ''/'' \<notin> set x" using plain by (simp add: plain_component_def)
    then have "split_on CHR ''/'' ?s = cs"
      using split_on_join [OF False, of "CHR ''/''"] by simp
    then show ?thesis
      using foldl_norm_step_id [OF plain, of k "[]"] by simp
  qed
  from k show ?thesis
  proof
    assume "k = 1"
    then show ?thesis using normpath_of_plain [OF plain] by simp
  next
    assume k2: "k = 2"
    have three: "\<not> startswith (''//'' @ ?s) ''///''"
      using ns by (cases ?s) (auto simp: startswith_def)
    have two: "startswith (''//'' @ ?s) ''//''" "startswith (''//'' @ ?s) ''/''"
      by (simp_all add: startswith_def)
    have fold: "foldl (norm_step 2) [] (split_on CHR ''/'' (''//'' @ ?s)) = cs"
      using split k2 by (simp add: norm_step_def)
    have "normpath (''//'' @ ?s) = ''//'' @ ?s"
      unfolding normpath_def using two three fold by (simp add: Let_def numeral_2_eq_2)
    then show ?thesis using k2 by (simp add: numeral_2_eq_2)
  qed
qed

lemma join_snoc:
  "join sep (xs @ [x]) = (if xs = [] then x else join sep xs @ sep @ x)"
  by (induction sep xs rule: join.induct) auto

lemma join_plain_last:
  "cs \<noteq> [] \<Longrightarrow> \<forall>c \<in> set cs. plain_component c \<Longrightarrow>
   join ''/'' cs \<noteq> [] \<and> last (join ''/'' cs) \<noteq> CHR ''/''"
proof (induction cs rule: rev_induct)
  case Nil
  then show ?case by simp
next
  case (snoc c cs)
  then have c: "c \<noteq> []" "CHR ''/'' \<notin> set c" by (simp_all add: plain_component_def)
  have "last c \<in> set c" by (rule last_in_set [OF c(1)])
  then have "last c \<noteq> CHR ''/''" using c(2) by metis
  with c show ?case by (simp add: join_snoc)
qed

lemma dropWhile_not_sep_plain:
  "CHR ''/'' \<notin> set c \<Longrightarrow> dropWhile (\<lambda>x. x \<noteq> CHR ''/'') (rev c @ ys) = dropWhile (\<lambda>x. x \<noteq> CHR ''/'') ys"
  by (induction c arbitrary: ys) (auto simp: dropWhile_append)

lemma dirname_slashes: "dirname (replicate k CHR ''/'') = replicate k CHR ''/''"
proof -
  have "dropWhile (\<lambda>c. c \<noteq> CHR ''/'') (replicate k CHR ''/'') = replicate k CHR ''/''"
    by (cases k) auto
  then show ?thesis by (simp add: dirname_def Let_def)
qed

lemma dirname_slashes_plain:
  assumes "CHR ''/'' \<notin> set c"
  shows "dirname (replicate k CHR ''/'' @ c) = replicate k CHR ''/''"
proof -
  have "dropWhile (\<lambda>c. c \<noteq> CHR ''/'') (rev c @ replicate k CHR ''/'') = replicate k CHR ''/''"
    unfolding dropWhile_not_sep_plain [OF assms] by (cases k) auto
  then show ?thesis by (simp add: dirname_def Let_def)
qed

lemma rstrip_sep_snoc:
  "s \<noteq> [] \<Longrightarrow> last s \<noteq> CHR ''/'' \<Longrightarrow> rstrip_sep (pre @ s @ ''/'') = pre @ s"
proof -
  assume s: "s \<noteq> []" "last s \<noteq> CHR ''/''"
  then obtain b l where bl: "s = b @ [l]" "l \<noteq> CHR ''/''"
    by (metis append_butlast_last_id)
  show ?thesis by (simp add: rstrip_sep_def lstrip_sep_def bl)
qed

lemma dirname_normal:
  assumes k: "0 < k" and plain: "\<forall>c \<in> set cs. plain_component c"
  shows "dirname (replicate k CHR ''/'' @ join ''/'' cs) = replicate k CHR ''/'' @ join ''/'' (butlast cs)"
proof (cases cs rule: rev_cases)
  case Nil
  then show ?thesis by (simp add: dirname_slashes)
next
  case (snoc cs' c)
  then have c: "CHR ''/'' \<notin> set c" using plain by (simp add: plain_component_def)
  show ?thesis
  proof (cases "cs' = []")
    case True
    then show ?thesis using snoc by (simp add: dirname_slashes_plain [OF c])
  next
    case False
    have plain': "\<forall>c \<in> set cs'. plain_component c" using plain snoc by simp
    let ?pre = "replicate k CHR ''/''"
    let ?j = "join ''/'' cs'"
    have j: "?j \<noteq> []" "last ?j \<noteq> CHR ''/''"
      using join_plain_last [OF False plain'] by simp_all
    have path: "?pre @ join ''/'' cs = ?pre @ ?j @ ''/'' @ c"
      using snoc False by (simp add: join_snoc)
    have "dropWhile (\<lambda>x. x \<noteq> CHR ''/'') (rev c @ rev (?pre @ ?j @ ''/''))
        = rev (?pre @ ?j @ ''/'')"
      unfolding dropWhile_not_sep_plain [OF c] by simp
    then have head: "rev (dropWhile (\<lambda>x. x \<noteq> CHR ''/'') (rev (?pre @ ?j @ ''/'' @ c)))
        = ?pre @ ?j @ ''/''"
      by simp
    have notall: "?pre @ ?j @ ''/'' \<noteq> replicate (length (?pre @ ?j @ ''/'')) CHR ''/''"
    proof
      assume "?pre @ ?j @ ''/'' = replicate (length (?pre @ ?j @ ''/'')) CHR ''/''"
      then have "set (?pre @ ?j @ ''/'') \<subseteq> {CHR ''/''}"
        by (metis set_replicate_conv_if empty_subsetI subset_refl)
      then have sub: "set ?j \<subseteq> {CHR ''/''}" by simp
      have "last ?j \<in> set ?j" by (rule last_in_set [OF j(1)])
      with sub have "last ?j = CHR ''/''" by blast
      with j(2) show False by contradiction
    qed
    have "dirname (?pre @ ?j @ ''/'' @ c) = rstrip_sep (?pre @ ?j @ ''/'')"
      unfolding dirname_def head Let_def using notall by simp
    also have "\<dots> = ?pre @ ?j" by (rule rstrip_sep_snoc [OF j])
    finally show ?thesis using snoc path by simp
  qed
qed

lemma abspath_str_form:
  assumes "isabs (cwd fs)"
  shows "\<exists>k cs. (k = 1 \<or> k = 2) \<and> (\<forall>c \<in> set cs. plain_component c)
     \<and> abspath_str fs p = replicate k CHR ''/'' @ join ''/'' cs"
proof -
  let ?q = "if \<not> isabs p then path_join (cwd fs) p else p"
  have "isabs ?q"
    using assms by (cases "cwd fs") (auto simp: isabs_def path_join_def startswith_def)
  then obtain q' where "?q = CHR ''/'' # q'"
    by (cases ?q) (auto simp: isabs_def startswith_def)
  then show ?thesis
    unfolding abspath_str_def using normpath_rooted [of q'] by auto
qed

lemma abspath_str_normal:
  assumes k: "k = 1 \<or> k = 2" and plain: "\<forall>c \<in> set cs. plain_component c"
  shows "abspath_str fs (replicate k CHR ''/'' @ join ''/'' cs) = replicate k CHR ''/'' @ join ''/'' cs"
proof -
  have "isabs (replicate k CHR ''/'' @ join ''/'' cs)"
    using k by (auto simp: isabs_def startswith_def numeral_2_eq_2)
  then show ?thesis
    unfolding abspath_str_def by (simp add: normpath_normal [OF k plain])
qed

lemma abspath_str_idem:
  assumes "isabs (cwd fs)"
  shows "abspath_str fs (abspath_str fs p) = abspath_str fs p"
    and "abspath_str fs (dirname (abspath_str fs p)) = dirname (abspath_str fs p)"
proof -
  obtain k cs where k: "k = 1 \<or> k = 2" and plain: "\<forall>c \<in> set cs. plain_component c"
    and form: "abspath_str fs p = replicate k CHR ''/'' @ join ''/'' cs"
    using abspath_str_form [OF assms] by blast
  show "abspath_str fs (abspath_str fs p) = abspath_str fs p"
    unfolding form by (rule abspath_str_normal [OF k plain])
  have k0: "0 < k" using k by auto
  have plain': "\<forall>c \<in> set (butlast cs). plain_component c"
    using plain by (auto dest: in_set_butlastD)
  show "abspath_str fs (dirname (abspath_str fs p)) = dirname (abspath_str fs p)"
    unfolding form dirname_normal [OF k0 plain] by (rule abspath_str_normal [OF k plain'])
qed

lemma validate_parent_exists_absolute:
  assumes "isabs (cwd fs)"
  shows "validate_parent_exists fs (VStr p) =
     (if 255 \<le> length (dirname (abspath_str fs p))
        then Inl (ValueError ''Length  must be less than 255'')
      else if \<not> isdir fs (dirname (abspath_str fs p))
        then Inl (ValueError (dirname (abspath_str fs p) @ '' does not exist''))
      else Inr (Some (abspath_str fs p)))"
  using abspath_str_nonempty [of fs "dirname (abspath_str fs p)"]
  by (simp add: validate_parent_exists_def abspath_def fspath_def Let_def
      validate_existing_directory_str abspath_str_idem [OF assms])

text \<open>
  C4, as amended. \<^verbatim>\<open>validate_parent_exists\<close> makes the path absolute and validates the
  directory name of the absolute path with \<^verbatim>\<open>validate_existing_directory\<close>. When that
  validation succeeds it returns the absolute path; when it raises, the same error
  propagates; an argument that is not a string raises before. The null result is never
  returned. With an absolute working directory the outcome for a path string is: a
  \<^verbatim>\<open>ValueError\<close> when the parent of the absolute path has 255 characters or more, a
  \<^verbatim>\<open>ValueError\<close> naming the parent when it is not a directory, and the absolute path
  otherwise.
\<close>

theorem validate_parent_exists_propagates:
  "(abspath fs arg = Inr a \<longrightarrow>
      (validate_existing_directory fs (VStr (dirname (abspath_str fs a))) = Inl e \<longrightarrow>
         validate_parent_exists fs arg = Inl e)
      \<and> (validate_existing_directory fs (VStr (dirname (abspath_str fs a))) = Inr d \<longrightarrow>
         validate_parent_exists fs arg = Inr (Some a)))
   \<and> (abspath fs arg = Inl e \<longrightarrow> validate_parent_exists fs arg = Inl e)
   \<and> validate_parent_exists fs arg \<noteq> Inr None
   \<and> (isabs (cwd fs) \<longrightarrow>
        validate_parent_exists fs (VStr p) =
          (if 255 \<le> length (dirname (abspath_str fs p))
             then Inl (ValueError ''Length  must be less than 255'')
           else if \<not> isdir fs (dirname (abspath_str fs p))
             then Inl (ValueError (dirname (abspath_str fs p) @ '' does not exist''))
           else Inr (Some (abspath_str fs p))))"
proof -
  have A: "(abspath fs arg = Inr a \<longrightarrow>
      (validate_existing_directory fs (VStr (dirname (abspath_str fs a))) = Inl e \<longrightarrow>
         validate_parent_exists fs arg = Inl e)
      \<and> (validate_existing_directory fs (VStr (dirname (abspath_str fs a))) = Inr d \<longrightarrow>
         validate_parent_exists fs arg = Inr (Some a)))
   \<and> (abspath fs arg = Inl e \<longrightarrow> validate_parent_exists fs arg = Inl e)
   \<and> validate_parent_exists fs arg \<noteq> Inr None"
    using validate_existing_directory_nonempty [of fs]
    by (auto simp: validate_parent_exists_def Let_def split: sum.splits)
  show ?thesis
    using A validate_parent_exists_absolute [of fs p] by blast
qed

theorem validate_parent_exists_propagates_witness:
  "isabs (cwd \<lparr>cwd = ''/home/user'', files = {}, dirs = {''/home/user/out''}\<rparr>)
   \<and> abspath \<lparr>cwd = ''/home/user'', files = {}, dirs = {''/home/user/out''}\<rparr> (VStr ''out/model'')
     = Inr ''/home/user/out/model''
   \<and> validate_parent_exists \<lparr>cwd = ''/home/user'', files = {}, dirs = {''/home/user/out''}\<rparr>
       (VStr ''out/model'') = Inr (Some ''/home/user/out/model'')
   \<and> validate_parent_exists \<lparr>cwd = ''/home/user'', files = {}, dirs = {''/home/user/out''}\<rparr>
       (VStr ''tmp/model'') = Inl (ValueError ''/home/user/tmp does not exist'')
   \<and> validate_parent_exists \<lparr>cwd = ''/home/user'', files = {}, dirs = {''/home/user/out''}\<rparr>
       VNone = Inl (TypeError ''expected str, bytes or os.PathLike object, not NoneType'')"
proof -
  let ?fs = "\<lparr>cwd = ''/home/user'', files = {}, dirs = {''/home/user/out''}\<rparr>"
  have a1: "abspath ?fs (VStr ''out/model'') = Inr ''/home/user/out/model''" by code_simp
  have a2: "abspath ?fs (VStr ''tmp/model'') = Inr ''/home/user/tmp/model''" by code_simp
  have a3: "abspath ?fs VNone = Inl (TypeError ''expected str, bytes or os.PathLike object, not NoneType'')"
    by code_simp
  have d1: "dirname (abspath_str ?fs ''/home/user/out/model'') = ''/home/user/out''" by code_simp
  have d2: "dirname (abspath_str ?fs ''/home/user/tmp/model'') = ''/home/user/tmp''" by code_simp
  have n1: "abspath_str ?fs ''/home/user/out'' = ''/home/user/out''" by code_simp
  have n2: "abspath_str ?fs ''/home/user/tmp'' = ''/home/user/tmp''" by code_simp
  show ?thesis
    using validate_parent_exists_propagates [where fs = ?fs and arg = "VStr ''out/model''"
        and a = "''/home/user/out/model''" and d = "''/home/user/out''"]
      validate_parent_exists_propagates [where fs = ?fs and arg = "VStr ''tmp/model''"
        and a = "''/home/user/tmp/model''" and e = "ValueError ''/home/user/tmp does not exist''"]
      validate_parent_exists_propagates [where fs = ?fs and arg = VNone
        and e = "TypeError ''expected str, bytes or os.PathLike object, not NoneType''"]
    by (simp add: a1 a2 a3 d1 d2 n1 n2 validate_existing_directory_str isdir_def isabs_def
        startswith_def)
qed

text \<open>
  C4 as stated has a null result returned when the validation of the parent fails. With no
  directory \<^verbatim>\<open>/home/user\<close>, the validation of the parent of \<^verbatim>\<open>model\<close> raises a
  \<^verbatim>\<open>ValueError\<close>, and so does \<^verbatim>\<open>validate_parent_exists\<close>.
\<close>

theorem validate_parent_exists_null_counterexample:
  "validate_existing_directory \<lparr>cwd = ''/home/user'', files = {}, dirs = {}\<rparr>
      (VStr (dirname (abspath_str \<lparr>cwd = ''/home/user'', files = {}, dirs = {}\<rparr> ''/home/user/model'')))
     = Inl (ValueError ''/home/user does not exist'')
   \<and> validate_parent_exists \<lparr>cwd = ''/home/user'', files = {}, dirs = {}\<rparr> (VStr ''model'')
     = Inl (ValueError ''/home/user does not exist'')"
proof -
  let ?fs = "\<lparr>cwd = ''/home/user'', files = {}, dirs = {}\<rparr>"
  have a: "abspath_str ?fs ''model'' = ''/home/user/model''" by code_simp
  have d: "dirname (abspath_str ?fs ''/home/user/model'') = ''/home/user''" by code_simp
  have n: "abspath_str ?fs ''/home/user'' = ''/home/user''" by code_simp
  show ?thesis
    by (simp add: validate_parent_exists_def abspath_def fspath_def a d n
        validate_existing_directory_str isdir_def)
qed

section \<open>Properties of validate_proxy_path\<close>

lemma concI: "u \<in> A \<Longrightarrow> v \<in> B \<Longrightarrow> u @ v \<in> conc A B"
  by (auto simp: conc_def)

lemma concE: "w \<in> conc A B \<Longrightarrow> (\<And>u v. w = u @ v \<Longrightarrow> u \<in> A \<Longrightarrow> v \<in> B \<Longrightarrow> P) \<Longrightarrow> P"
  by (auto simp: conc_def)

lemma conc_assoc: "conc (conc A B) C = conc A (conc B C)"
proof (intro equalityI subsetI)
  fix w assume "w \<in> conc (conc A B) C"
  then obtain x c where w: "w = x @ c" and x: "x \<in> conc A B" and c: "c \<in> C" by (rule concE)
  from x obtain a b where x': "x = a @ b" and a: "a \<in> A" and b: "b \<in> B" by (rule concE)
  have "a @ (b @ c) \<in> conc A (conc B C)" by (intro concI a b c)
  then show "w \<in> conc A (conc B C)" by (simp add: w x')
next
  fix w assume "w \<in> conc A (conc B C)"
  then obtain a y where w: "w = a @ y" and a: "a \<in> A" and y: "y \<in> conc B C" by (rule concE)
  from y obtain b c where y': "y = b @ c" and b: "b \<in> B" and c: "c \<in> C" by (rule concE)
  have "(a @ b) @ c \<in> conc (conc A B) C" by (intro concI a b c)
  then show "w \<in> conc (conc A B) C" by (simp add: w y')
qed

lemma conc_eps_left: "conc {[]} A = A"
  by (auto simp: conc_def)

lemma after_eps: "after {[]} S = S"
  by (auto simp: after_def)

lemma after_after: "after L (after M S) = after (conc M L) S"
proof (intro equalityI subsetI)
  fix t assume "t \<in> after L (after M S)"
  then obtain s' u where s': "s' \<in> after M S" and u: "u \<in> L" and e1: "s' = u @ t"
    by (auto simp: after_def)
  from s' obtain s m where s: "s \<in> S" and m: "m \<in> M" and e2: "s = m @ s'"
    by (auto simp: after_def)
  have "m @ u \<in> conc M L" by (intro concI m u)
  moreover have "s = (m @ u) @ t" by (simp add: e1 e2)
  ultimately show "t \<in> after (conc M L) S" using s unfolding after_def by blast
next
  fix t assume "t \<in> after (conc M L) S"
  then obtain s w where s: "s \<in> S" and w: "w \<in> conc M L" and e: "s = w @ t"
    by (auto simp: after_def)
  from w obtain m u where w': "w = m @ u" and m: "m \<in> M" and u: "u \<in> L" by (rule concE)
  have "u @ t \<in> after M S" using s m e w' unfolding after_def by auto
  then show "t \<in> after L (after M S)" using u unfolding after_def by blast
qed

lemma set_step_all:
  "(\<And>s. set (f s) = after L {s}) \<Longrightarrow> set (step_all f ss) = after L (set ss)"
  by (auto simp: step_all_def after_def)

lemma set_times:
  "(\<And>s. set (f s) = after L {s}) \<Longrightarrow> set (times f n ss) = after (pow L n) (set ss)"
proof (induction n arbitrary: ss)
  case 0
  then show ?case by (simp add: after_eps)
next
  case (Suc n)
  show ?case
    by (simp only: times.simps Suc.IH [OF Suc.prems] set_step_all [OF Suc.prems] after_after
        pow.simps)
qed

lemma set_up_to:
  "(\<And>s. set (f s) = after L {s}) \<Longrightarrow>
   set (up_to f n ss) = (\<Union>k \<in> {..n}. after (pow L k) (set ss))"
proof (induction n arbitrary: ss)
  case 0
  then show ?case by (simp add: after_eps)
next
  case (Suc n)
  have step: "set (up_to f (Suc n) ss) = set ss \<union> (\<Union>k \<in> {..n}. after (pow L (Suc k)) (set ss))"
    by (simp only: up_to.simps set_append Suc.IH [OF Suc.prems] set_step_all [OF Suc.prems]
        after_after pow.simps)
  show ?case
  proof (intro equalityI subsetI)
    fix t assume "t \<in> set (up_to f (Suc n) ss)"
    then consider "t \<in> set ss" | k where "k \<le> n" "t \<in> after (pow L (Suc k)) (set ss)"
      unfolding step by auto
    then show "t \<in> (\<Union>k \<in> {..Suc n}. after (pow L k) (set ss))"
    proof cases
      case 1
      then have "t \<in> after (pow L 0) (set ss)" by (simp add: after_eps)
      then show ?thesis by blast
    next
      case 2
      then have "Suc k \<in> {..Suc n}" by simp
      with 2 show ?thesis by blast
    qed
  next
    fix t assume "t \<in> (\<Union>k \<in> {..Suc n}. after (pow L k) (set ss))"
    then obtain k where k: "k \<le> Suc n" and t: "t \<in> after (pow L k) (set ss)" by auto
    show "t \<in> set (up_to f (Suc n) ss)"
    proof (cases k)
      case 0
      with t show ?thesis unfolding step by (simp add: after_eps)
    next
      case (Suc j)
      with k t show ?thesis unfolding step by auto
    qed
  qed
qed

lemma pow_add: "pow L (n + k) = conc (pow L n) (pow L k)"
proof (induction n)
  case 0
  then show ?case by (simp add: conc_eps_left)
next
  case (Suc n)
  have "pow L (Suc n + k) = conc L (pow L (n + k))" by simp
  also have "\<dots> = conc L (conc (pow L n) (pow L k))" by (simp only: Suc.IH)
  also have "\<dots> = conc (conc L (pow L n)) (pow L k)" by (simp only: conc_assoc)
  finally show ?case by (simp only: pow.simps)
qed

lemma after_pow_add: "after (pow L k) (after (pow L n) S) = after (pow L (n + k)) S"
  by (simp only: after_after pow_add)

lemma pow_shrink: "u \<in> pow L k \<Longrightarrow> \<exists>j. j \<le> length u \<and> j \<le> k \<and> u \<in> pow L j"
proof (induction k arbitrary: u)
  case 0
  then show ?case by auto
next
  case (Suc k)
  then have "u \<in> conc L (pow L k)" by simp
  then obtain a v where u: "u = a @ v" and a: "a \<in> L" and v: "v \<in> pow L k" by (rule concE)
  from Suc.IH [OF v] obtain j where j: "j \<le> length v" "j \<le> k" "v \<in> pow L j" by blast
  show ?case
  proof (cases "a = []")
    case True
    with u j show ?thesis by (intro exI [of _ j]) auto
  next
    case False
    then have "Suc j \<le> length u" using u j by (cases a) auto
    moreover have "u \<in> pow L (Suc j)" using u a j by (auto intro: concI)
    ultimately show ?thesis using j by (intro exI [of _ "Suc j"]) auto
  qed
qed


lemma set_repeat:
  assumes f: "\<And>s. set (f s) = after L {s}"
    and ok: "case hi of None \<Rightarrow> True | Some h \<Rightarrow> lo \<le> h"
  shows "set (repeat f lo hi s) =
     after (\<Union>n \<in> {n. lo \<le> n \<and> (case hi of None \<Rightarrow> True | Some h \<Rightarrow> n \<le> h)}. pow L n) {s}"
    (is "?lhs = after ?U {s}")
proof -
  define m where "m = (case hi of Some h \<Rightarrow> h - lo | None \<Rightarrow> length s)"
  have lhs: "?lhs = (\<Union>k \<in> {..m}. after (pow L (lo + k)) {s})"
    unfolding repeat_def m_def [symmetric]
    by (simp only: set_up_to [OF f] set_times [OF f] after_pow_add) simp
  show ?thesis
  proof (intro equalityI subsetI)
    fix t assume "t \<in> ?lhs"
    then obtain k where k: "k \<le> m" and t: "t \<in> after (pow L (lo + k)) {s}"
      unfolding lhs by auto
    have "lo + k \<in> {n. lo \<le> n \<and> (case hi of None \<Rightarrow> True | Some h \<Rightarrow> n \<le> h)}"
      using k ok by (auto simp: m_def split: option.splits)
    then have "pow L (lo + k) \<subseteq> ?U" by blast
    with t show "t \<in> after ?U {s}" unfolding after_def by blast
  next
    fix t assume "t \<in> after ?U {s}"
    then obtain u n where su: "s = u @ t" and n: "lo \<le> n"
      and hi: "case hi of None \<Rightarrow> True | Some h \<Rightarrow> n \<le> h" and u: "u \<in> pow L n"
      by (auto simp: after_def)
    obtain d where d: "n = lo + d" using n by (auto simp: le_iff_add)
    from u have "u \<in> conc (pow L lo) (pow L d)" by (simp only: d pow_add)
    then obtain x y where xy: "u = x @ y" and x: "x \<in> pow L lo" and y: "y \<in> pow L d"
      by (rule concE)
    obtain j where j: "j \<le> length y" "j \<le> d" "y \<in> pow L j"
      using pow_shrink [OF y] by blast
    have jm: "j \<le> m"
    proof (cases hi)
      case None
      then show ?thesis using j su xy by (simp add: m_def)
    next
      case (Some h)
      then show ?thesis using j hi d by (simp add: m_def)
    qed
    have "x @ y \<in> pow L (lo + j)" unfolding pow_add by (intro concI x j)
    then have "t \<in> after (pow L (lo + j)) {s}" using su xy unfolding after_def by blast
    then show "t \<in> ?lhs" unfolding lhs using jm by blast
  qed
qed

lemma rems_lang:
  "bounds_ok r \<Longrightarrow> set (rems r s) = after (lang r) {s}"
proof (induction r arbitrary: s)
  case Eps
  show ?case by (auto simp: after_def)
next
  case (Class items)
  show ?case by (cases s) (auto simp: after_def list_ex_iff)
next
  case (Cat a b)
  then have a: "\<And>s. set (rems a s) = after (lang a) {s}"
    and b: "\<And>s. set (rems b s) = after (lang b) {s}" by simp_all
  have "set (rems (Cat a b) s) = (\<Union>t \<in> after (lang a) {s}. after (lang b) {t})"
    by (simp add: a b)
  also have "\<dots> = after (lang b) (after (lang a) {s})"
    by (auto simp: after_def)
  finally show ?case by (simp only: after_after lang.simps)
next
  case (Alt a b)
  then show ?case by (auto simp: after_def)
next
  case (Rep lo hi a)
  then have a: "\<And>s. set (rems a s) = after (lang a) {s}"
    and ok: "case hi of None \<Rightarrow> True | Some h \<Rightarrow> lo \<le> h" by simp_all
  show ?case
    by (simp only: rems.simps lang.simps set_repeat [OF a ok])
qed

lemma re_match_lang:
  assumes "bounds_ok r"
  shows "re_match r s \<longleftrightarrow> s \<in> lang r \<or> (\<exists>u. s = u @ [CHR 0x0A] \<and> u \<in> lang r)"
proof -
  have "re_match r s \<longleftrightarrow> (\<exists>t \<in> after (lang r) {s}. at_end t)"
    by (simp add: re_match_def list_ex_iff rems_lang [OF assms])
  also have "\<dots> \<longleftrightarrow> s \<in> lang r \<or> (\<exists>u. s = u @ [CHR 0x0A] \<and> u \<in> lang r)"
    by (auto simp: after_def at_end_def)
  finally show ?thesis .
qed

lemma proxy_bounds_ok: "bounds_ok proxy_validation_regex"
  by (simp add: proxy_validation_regex_def scheme_def domain_def ipv4_def port_def path_part_def
      lit_def opt_def plus_def alnum_def alnum_dash_def alpha_def dot_def digit_def)

lemma validate_proxy_path_str:
  "validate_proxy_path (VStr s) =
     (if matches_pattern proxy_validation_regex s then Inr (VStr s)
      else Inl (ValueError (s @ '' is not a valid proxy path'')))"
  by (simp add: validate_proxy_path_def matches_pattern_def re_match_lang [OF proxy_bounds_ok])

lemma proxy_example_localhost:
  "re_match proxy_validation_regex ''http://localhost:8080/path''"
  by code_simp

lemma proxy_example_not_a_url:
  "\<not> re_match proxy_validation_regex ''not-a-url''"
  by code_simp

text \<open>
  C5. \<^verbatim>\<open>validate_proxy_path\<close> returns its argument when the argument is \<^verbatim>\<open>None\<close> or a
  string that matches the fixed pattern (a scheme \<^verbatim>\<open>http\<close>, \<^verbatim>\<open>https\<close>, \<^verbatim>\<open>ftp\<close> or
  \<^verbatim>\<open>ftps\<close>, then a domain name, \<^verbatim>\<open>localhost\<close> or a dotted address of four groups of digits,
  then an optional port and an optional path); for every string that does not match it raises
  a \<^verbatim>\<open>ValueError\<close> naming the string. \<^verbatim>\<open>http://localhost:8080/path\<close> succeeds,
  \<^verbatim>\<open>not-a-url\<close> fails, and \<^verbatim>\<open>None\<close> is returned as \<^verbatim>\<open>None\<close>. Matching is stated on the
  language of the pattern, which is what the matcher decides. As \<^verbatim>\<open>$\<close> also matches before a
  final newline, a matching string followed by one newline matches too.
\<close>

theorem validate_proxy_path_pattern:
  "validate_proxy_path VNone = Inr VNone
   \<and> (re_match proxy_validation_regex s \<longleftrightarrow> matches_pattern proxy_validation_regex s)
   \<and> (matches_pattern proxy_validation_regex s \<longrightarrow> validate_proxy_path (VStr s) = Inr (VStr s))
   \<and> (\<not> matches_pattern proxy_validation_regex s \<longrightarrow>
        validate_proxy_path (VStr s) = Inl (ValueError (s @ '' is not a valid proxy path'')))
   \<and> validate_proxy_path (VStr ''http://localhost:8080/path'') = Inr (VStr ''http://localhost:8080/path'')
   \<and> validate_proxy_path (VStr ''not-a-url'') = Inl (ValueError ''not-a-url is not a valid proxy path'')"
proof -
  have A: "validate_proxy_path VNone = Inr VNone"
    by (simp add: validate_proxy_path_def)
  have B: "validate_proxy_path (VStr ''http://localhost:8080/path'') = Inr (VStr ''http://localhost:8080/path'')"
    using proxy_example_localhost by (simp add: validate_proxy_path_def)
  have C: "validate_proxy_path (VStr ''not-a-url'') = Inl (ValueError ''not-a-url is not a valid proxy path'')"
    using proxy_example_not_a_url by (simp add: validate_proxy_path_def)
  have D: "re_match proxy_validation_regex s \<longleftrightarrow> matches_pattern proxy_validation_regex s"
    by (simp add: matches_pattern_def re_match_lang [OF proxy_bounds_ok])
  show ?thesis
    using A B C D by (simp add: validate_proxy_path_str)
qed

theorem validate_proxy_path_pattern_witness:
  "matches_pattern proxy_validation_regex ''ftps://10.0.0.1:21/pub''
   \<and> validate_proxy_path (VStr ''ftps://10.0.0.1:21/pub'') = Inr (VStr ''ftps://10.0.0.1:21/pub'')
   \<and> \<not> matches_pattern proxy_validation_regex ''http://proxy example.com''
   \<and> validate_proxy_path (VStr ''http://proxy example.com'')
       = Inl (ValueError ''http://proxy example.com is not a valid proxy path'')"
proof -
  have m: "re_match proxy_validation_regex ''ftps://10.0.0.1:21/pub''" by code_simp
  have n: "\<not> re_match proxy_validation_regex ''http://proxy example.com''" by code_simp
  show ?thesis
    using m n validate_proxy_path_pattern [of "''ftps://10.0.0.1:21/pub''"]
      validate_proxy_path_pattern [of "''http://proxy example.com''"]
    by (simp add: matches_pattern_def re_match_lang [OF proxy_bounds_ok])
qed

text \<open>
  C10. Whenever \<^verbatim>\<open>validate_proxy_path\<close> does not raise, it returns exactly the argument it
  was given, \<^verbatim>\<open>None\<close> included.
\<close>

theorem validate_proxy_path_identity:
  "validate_proxy_path arg = Inr r \<Longrightarrow> r = arg"
  by (cases arg) (auto simp: validate_proxy_path_def split: if_splits)

theorem validate_proxy_path_identity_witness:
  "validate_proxy_path VNone = Inr VNone
   \<and> validate_proxy_path (VStr ''https://proxy.example.com:3128'') = Inr (VStr ''https://proxy.example.com:3128'')"
proof -
  have m: "re_match proxy_validation_regex ''https://proxy.example.com:3128''" by code_simp
  have r: "validate_proxy_path (VStr ''https://proxy.example.com:3128'')
      = Inr (VStr ''https://proxy.example.com:3128'')"
    using m by (simp add: validate_proxy_path_def)
  have n: "validate_proxy_path VNone = Inr VNone"
    by (simp add: validate_proxy_path_def)
  show ?thesis
    using validate_proxy_path_identity [OF n] validate_proxy_path_identity [OF r]
    by (simp add: n r)
qed

end
